theory Spec2Isabelle
  imports Main "HOL-Library.Word"
begin

section \<open>JavaScript values used by the OAuth coordinator\<close>

text \<open>
  Strings are lists of characters. A JavaScript number is a double: an integer that a
  double holds exactly, an infinity or \<open>NaN\<close> (the numbers the coordinator handles, ports
  and epoch milliseconds, have no fraction, and \<open>-0\<close> is \<open>0\<close> here: the code never
  tells them apart). \<open>null\<close> and \<open>undefined\<close> are both \<open>None\<close>: the code only ever
  tests them for truthiness.
\<close>

datatype jsnum = Num int | NaN | PosInfinity | NegInfinity

datatype error = Error string

type_synonym byte = "8 word"

definition truthy :: "string option \<Rightarrow> bool" where
  "truthy v = (case v of None \<Rightarrow> False | Some s \<Rightarrow> s \<noteq> [])"

definition truthyNum :: "jsnum option \<Rightarrow> bool" where
  "truthyNum v =
     (case v of
        None \<Rightarrow> False
      | Some NaN \<Rightarrow> False
      | Some (Num n) \<Rightarrow> n \<noteq> 0
      | Some _ \<Rightarrow> True)"

text \<open>\<open>v || undefined\<close> and \<open>v || null\<close> on an optional string.\<close>

definition orUndefined :: "string option \<Rightarrow> string option" where
  "orUndefined v = (if truthy v then v else None)"

definition orUndefinedNum :: "jsnum option \<Rightarrow> jsnum option" where
  "orUndefinedNum v = (if truthyNum v then v else None)"

text \<open>\<open>v || d\<close> with a string default.\<close>

definition orElse :: "string option \<Rightarrow> string \<Rightarrow> string" where
  "orElse v d = (case v of None \<Rightarrow> d | Some s \<Rightarrow> if s = [] then d else s)"

definition startsWith :: "string \<Rightarrow> string \<Rightarrow> bool" where
  "startsWith s p = (take (length p) s = p)"

text \<open>\<open>String.prototype.split\<close> with a one-character separator: \<open>''''\<close> splits to \<open>['''']\<close>.\<close>

fun js_split :: "char \<Rightarrow> string \<Rightarrow> string list" where
  "js_split d [] = [[]]"
| "js_split d (c # cs) =
     (if c = d then [] # js_split d cs
      else (case js_split d cs of [] \<Rightarrow> [[c]] | w # ws \<Rightarrow> (c # w) # ws))"

text \<open>
  The number value of a mathematical integer: the nearest double, ties to the even
  significand of 53 bits, and an infinity from \<open>2 ^ 1024\<close> on.
\<close>

fun bitLength :: "nat \<Rightarrow> nat" where
  "bitLength n = (if n = 0 then 0 else Suc (bitLength (n div 2)))"

declare bitLength.simps [simp del]

definition toNumber :: "int \<Rightarrow> jsnum" where
  "toNumber n =
     (let a = nat \<bar>n\<bar>; k = bitLength a
      in if k \<le> 53 then Num n
         else (let sh = k - 53; q = a div 2 ^ sh; r = a mod 2 ^ sh;
                   q' = (if 2 * r > 2 ^ sh \<or> (2 * r = 2 ^ sh \<and> odd q) then q + 1 else q);
                   v = q' * 2 ^ sh
               in if bitLength v > 1024 then (if n < 0 then NegInfinity else PosInfinity)
                  else Num (if n < 0 then - int v else int v)))"

text \<open>
  \<open>parseInt(s, 10)\<close>: leading white space is skipped, one sign is read, then the longest
  run of decimal digits; the rest of the string is ignored, and no digit gives \<open>NaN\<close>.
\<close>

definition isWhiteSpace :: "char \<Rightarrow> bool" where
  "isWhiteSpace c = (c \<in> set [CHR 0x09, CHR 0x0A, CHR 0x0B, CHR 0x0C, CHR 0x0D, CHR 0x20, CHR 0xA0])"

definition isDigit :: "char \<Rightarrow> bool" where
  "isDigit c = ((48::nat) \<le> of_char c \<and> of_char c \<le> (57::nat))"

definition digitValue :: "char \<Rightarrow> int" where
  "digitValue c = int (of_char c) - 48"

definition digitsValue :: "string \<Rightarrow> int" where
  "digitsValue z = foldl (\<lambda>a c. 10 * a + digitValue c) 0 z"

definition parseInt :: "string \<Rightarrow> jsnum" where
  "parseInt s =
     (let t = dropWhile isWhiteSpace s;
          sign = (case t of c # r \<Rightarrow> if c = CHR ''-'' then - 1 else 1 | [] \<Rightarrow> (1::int));
          u = (case t of c # r \<Rightarrow> if c = CHR ''-'' \<or> c = CHR ''+'' then r else t | [] \<Rightarrow> t);
          z = takeWhile isDigit u
      in if z = [] then NaN else toNumber (sign * digitsValue z))"

text \<open>Number to string, as a template literal prints an integer.\<close>

definition digitChar :: "nat \<Rightarrow> char" where
  "digitChar n = char_of (48 + n)"

fun showNat :: "nat \<Rightarrow> string" where
  "showNat n = (if n < 10 then [digitChar n] else showNat (n div 10) @ [digitChar (n mod 10)])"

declare showNat.simps [simp del]

definition showInt :: "int \<Rightarrow> string" where
  "showInt i = (if i < 0 then CHR ''-'' # showNat (nat (- i)) else showNat (nat i))"

text \<open>\<open>Buffer.toString('hex')\<close>: two lower-case hex digits per byte.\<close>

definition hexDigit :: "nat \<Rightarrow> char" where
  "hexDigit n = (''0123456789abcdef'' ! (n mod 16))"

definition hexByte :: "byte \<Rightarrow> string" where
  "hexByte b = [hexDigit (unat b div 16), hexDigit (unat b mod 16)]"

definition toHex :: "byte list \<Rightarrow> string" where
  "toHex bs = concat (map hexByte bs)"

section \<open>Credentials and the credential store\<close>

text \<open>\<open>Credentials\<close> of google-auth-library, the fields this code reads and writes.\<close>

record credentials =
  access_token :: "string option"
  refresh_token :: "string option"
  scope :: "string option"
  token_type :: "string option"
  expiry_date :: "jsnum option"

definition noCredentials :: credentials where
  "noCredentials = \<lparr>access_token = None, refresh_token = None, scope = None,
     token_type = None, expiry_date = None\<rparr>"

text \<open>\<open>OAuthToken\<close> and \<open>OAuthCredentials\<close> of \<open>token-storage/types\<close> (field \<open>scope\<close> of the
  token is \<open>tokenScope\<close> here).\<close>

record oauth_token =
  accessToken :: "string option"
  refreshToken :: "string option"
  tokenType :: string
  tokenScope :: "string option"
  expiresAt :: "jsnum option"

record oauth_credentials =
  serverName :: string
  token :: oauth_token
  updatedAt :: int

type_synonym storage = "string \<rightharpoonup> oauth_credentials"

definition KEYCHAIN_SERVICE_NAME :: string where
  "KEYCHAIN_SERVICE_NAME = ''gemini-cli-workspace-oauth''"

definition MAIN_ACCOUNT_KEY :: string where
  "MAIN_ACCOUNT_KEY = ''main-account''"

text \<open>
  Modelled from the spec: \<open>HybridTokenStorage\<close> and the stores behind it
  (\<open>hybrid-token-storage\<close>, \<open>file-token-storage\<close>, \<open>keychain-token-storage\<close>,
  \<open>base-token-storage\<close>) are not among the sources. The store is the map from server
  name to credentials of section 3; a lookup of something absent is \<open>null\<close>, a write
  validates the credential shape first, and deleting something absent throws.
\<close>

definition validateCredentials :: "oauth_credentials \<Rightarrow> error + unit" where
  "validateCredentials c =
     (if serverName c = [] then Inl (Error ''Server name is required'')
      else if \<not> truthy (accessToken (token c)) \<and> \<not> truthy (refreshToken (token c))
        then Inl (Error ''Access token or refresh token is required'')
      else if tokenType (token c) = [] then Inl (Error ''Token type is required'')
      else Inr ())"

definition storage_getCredentials :: "storage \<Rightarrow> string \<Rightarrow> error + oauth_credentials option" where
  "storage_getCredentials st name = Inr (st name)"

definition storage_setCredentials :: "storage \<Rightarrow> oauth_credentials \<Rightarrow> error + storage" where
  "storage_setCredentials st c =
     (case validateCredentials c of
        Inl e \<Rightarrow> Inl e
      | Inr _ \<Rightarrow> Inr (st(serverName c \<mapsto> c)))"

definition storage_deleteCredentials :: "storage \<Rightarrow> string \<Rightarrow> error + storage" where
  "storage_deleteCredentials st name =
     (case st name of
        None \<Rightarrow> Inl (Error (''No credentials found for '' @ name))
      | Some _ \<Rightarrow> Inr (st(name := None)))"

subsection \<open>\<open>OAuthCredentialStorage\<close> (oauth-credential-storage.ts)\<close>

definition loadCredentials :: "storage \<Rightarrow> error + credentials option" where
  "loadCredentials st =
     (case storage_getCredentials st MAIN_ACCOUNT_KEY of
        Inl e \<Rightarrow> Inl e
      | Inr None \<Rightarrow> Inr None
      | Inr (Some c) \<Rightarrow>
          (let googleCreds = \<lparr>access_token = accessToken (token c),
                 refresh_token = orUndefined (refreshToken (token c)),
                 scope = orUndefined (tokenScope (token c)),
                 token_type = orUndefined (Some (tokenType (token c))),
                 expiry_date = None\<rparr>
           in Inr (Some (if truthyNum (expiresAt (token c))
                         then googleCreds\<lparr>expiry_date := expiresAt (token c)\<rparr>
                         else googleCreds))))"

definition toMcpCredentials :: "int \<Rightarrow> credentials \<Rightarrow> oauth_credentials" where
  "toMcpCredentials now creds =
     \<lparr>serverName = MAIN_ACCOUNT_KEY,
      token = \<lparr>accessToken = orUndefined (access_token creds),
               refreshToken = orUndefined (refresh_token creds),
               tokenType = orElse (token_type creds) ''Bearer'',
               tokenScope = orUndefined (scope creds),
               expiresAt = orUndefinedNum (expiry_date creds)\<rparr>,
      updatedAt = now\<rparr>"

definition saveCredentials :: "int \<Rightarrow> storage \<Rightarrow> credentials \<Rightarrow> error + storage" where
  "saveCredentials now st creds = storage_setCredentials st (toMcpCredentials now creds)"

definition clearCredentials :: "storage \<Rightarrow> error + storage" where
  "clearCredentials st = storage_deleteCredentials st MAIN_ACCOUNT_KEY"

section \<open>The authorization coordinator (AuthManager.ts)\<close>

definition CLIENT_ID :: string where
  "CLIENT_ID = ''338689075775-o75k922vn5fdl18qergr96rp8g63e4d7.apps.googleusercontent.com''"

text \<open>\<open>Auth.OAuth2Client\<close>: the client shell and the credentials installed on it.\<close>

record oauth2client =
  clientId :: string
  credentials :: credentials

record auth_manager =
  client :: "oauth2client option"
  scopes :: "string list"

text \<open>
  The state payload and the options handed to \<open>generateAuthUrl\<close>. The library calls that
  serialise them (\<open>JSON.stringify\<close>, base64, the URL builder) are kept structured.
\<close>

record state_payload =
  uri :: "string option"
  manual :: bool
  csrf :: string

record auth_url =
  redirect_uri :: string
  access_type :: string
  requested_scope :: "string list"
  state :: state_payload
  prompt :: string

text \<open>
  What the process observes after the callback server was asked to listen, in the order
  of arrival: the server's \<open>listening\<close> and \<open>error\<close> events, an HTTP request with its
  \<open>req.url\<close>, and the firing of the authentication timer.
\<close>

datatype event = Bound | ServerError string | Request "string option" | TimerFired

text \<open>
  The environment of one call: the two environment variables, \<open>shouldLaunchBrowser()\<close>,
  \<open>crypto.randomBytes\<close>, the outcome of listening on port 0 (the port the system assigns,
  or the error event), the query parser \<open>new url.URL(req.url, base).searchParams\<close> (it
  may throw), \<open>Date.now()\<close>, the events that arrive while \<open>open(authUrl)\<close> is awaited
  (\<open>duringOpen\<close>) and those that arrive after it has returned (\<open>events\<close>).
\<close>

record env =
  OAUTH_CALLBACK_PORT :: "string option"
  OAUTH_CALLBACK_HOST :: "string option"
  shouldLaunchBrowser :: bool
  randomBytes :: "nat \<Rightarrow> byte list"
  ephemeral :: "error + int"
  searchParams :: "string \<Rightarrow> string \<Rightarrow> error + (string \<times> string) list"
  dateNow :: int
  duringOpen :: "event list"
  events :: "event list"

text \<open>The calls the coordinator makes on its collaborators, in program order.\<close>

datatype effect =
    StorageGet string
  | StorageDelete string
  | StorageSet oauth_credentials
  | SetCredentials credentials
  | NetListen int
  | NetClose
  | HttpListen int string
  | HttpListening
  | ResEnd string
  | HttpClose
  | Open auth_url
  | SetTimeout int

datatype promise = Pending | Resolved | Rejected error

datatype listener = Starting | Accepting | Closed

text \<open>A promise settles once: later calls of \<open>resolve\<close> and \<open>reject\<close> are ignored.\<close>

definition resolve :: "promise \<Rightarrow> promise" where
  "resolve p = (case p of Pending \<Rightarrow> Resolved | _ \<Rightarrow> p)"

definition reject :: "error \<Rightarrow> promise \<Rightarrow> promise" where
  "reject e p = (case p of Pending \<Rightarrow> Rejected e | _ \<Rightarrow> p)"

subsection \<open>\<open>loadCachedCredentials\<close>\<close>

definition savedScopes :: "credentials \<Rightarrow> string list" where
  "savedScopes c = (case scope c of None \<Rightarrow> [] | Some s \<Rightarrow> js_split (CHR '' '') s)"

definition missingScopes :: "string list \<Rightarrow> credentials \<Rightarrow> string list" where
  "missingScopes required c = filter (\<lambda>s. s \<notin> set (savedScopes c)) required"

definition loadCachedCredentials ::
  "storage \<Rightarrow> string list \<Rightarrow> oauth2client \<Rightarrow> (error + bool) \<times> storage \<times> oauth2client \<times> effect list" where
  "loadCachedCredentials st required cl =
     (case loadCredentials st of
        Inl e \<Rightarrow> (Inl e, st, cl, [StorageGet MAIN_ACCOUNT_KEY])
      | Inr None \<Rightarrow> (Inr False, st, cl, [StorageGet MAIN_ACCOUNT_KEY])
      | Inr (Some c) \<Rightarrow>
          (if length (missingScopes required c) > 0 then
             (case clearCredentials st of
                Inl e \<Rightarrow> (Inl e, st, cl, [StorageGet MAIN_ACCOUNT_KEY, StorageDelete MAIN_ACCOUNT_KEY])
              | Inr st' \<Rightarrow>
                  (Inr False, st', cl, [StorageGet MAIN_ACCOUNT_KEY, StorageDelete MAIN_ACCOUNT_KEY]))
           else (Inr True, st, cl\<lparr>credentials := c\<rparr>,
                 [StorageGet MAIN_ACCOUNT_KEY, SetCredentials c])))"

subsection \<open>\<open>getAvailablePort\<close>\<close>

definition invalidPort :: "jsnum \<Rightarrow> bool" where
  "invalidPort port =
     (case port of
        NaN \<Rightarrow> True
      | Num n \<Rightarrow> n \<le> 0 \<or> n > 65535
      | PosInfinity \<Rightarrow> True
      | NegInfinity \<Rightarrow> True)"

text \<open>The throwaway server: listen on port 0, read the assigned port, close, resolve.\<close>

definition throwawayListener :: "env \<Rightarrow> (error + int) \<times> effect list" where
  "throwawayListener e =
     (case ephemeral e of
        Inl err \<Rightarrow> (Inl err, [NetListen 0])
      | Inr port \<Rightarrow> (Inr port, [NetListen 0, NetClose]))"

definition invalidPortValue :: "string \<Rightarrow> error" where
  "invalidPortValue portStr =
     Error (''Invalid value for OAUTH_CALLBACK_PORT: '' @ [CHR 0x22] @ portStr @ [CHR 0x22])"

definition getAvailablePort :: "env \<Rightarrow> (error + int) \<times> effect list" where
  "getAvailablePort e =
     (case OAUTH_CALLBACK_PORT e of
        None \<Rightarrow> throwawayListener e
      | Some portStr \<Rightarrow>
          (if portStr = [] then throwawayListener e
           else (if invalidPort (parseInt portStr) then (Inl (invalidPortValue portStr), [])
                 else (case parseInt portStr of
                         Num p \<Rightarrow> (Inr p, [])
                       | _ \<Rightarrow> (Inl (invalidPortValue portStr), [])))))"

subsection \<open>\<open>authWithWeb\<close>\<close>

text \<open>
  The login in progress: what the request handler closes over (\<open>host\<close>, \<open>port\<close>,
  \<open>csrfToken\<close>, the client), the state of \<open>loginCompletePromise\<close>, the state of the
  callback server and the calls made so far by the handlers.
\<close>

record login_flow =
  host :: string
  port :: int
  csrfToken :: string
  loginComplete :: promise
  server :: listener
  oAuth2Client :: oauth2client
  effects :: "effect list"

record web_login =
  authUrl :: auth_url
  loginCompletePromise :: login_flow

definition cloudFunctionRedirectUri :: string where
  "cloudFunctionRedirectUri = ''https://google-workspace-extension.geminicli.com''"

definition authWithWeb :: "env \<Rightarrow> string list \<Rightarrow> oauth2client \<Rightarrow> (error + web_login) \<times> effect list" where
  "authWithWeb e required cl =
     (case getAvailablePort e of
        (Inl err, tr) \<Rightarrow> (Inl err, tr)
      | (Inr p, tr) \<Rightarrow>
          (let h = orElse (OAUTH_CALLBACK_HOST e) ''localhost'';
               localRedirectUri = ''http://'' @ h @ '':'' @ showInt p @ ''/oauth2callback'';
               isGuiAvailable = shouldLaunchBrowser e;
               token = toHex (randomBytes e 32);
               statePayload = \<lparr>uri = (if isGuiAvailable then Some localRedirectUri else None),
                                manual = (\<not> isGuiAvailable), csrf = token\<rparr>;
               url = \<lparr>redirect_uri = cloudFunctionRedirectUri, access_type = ''offline'',
                       requested_scope = required, state = statePayload, prompt = ''consent''\<rparr>
           in (Inr \<lparr>authUrl = url,
                    loginCompletePromise = \<lparr>host = h, port = p, csrfToken = token,
                      loginComplete = Pending, server = Starting, oAuth2Client = cl,
                      effects = []\<rparr>\<rparr>,
               tr @ [HttpListen p h])))"

text \<open>The request handler of the callback server, with its \<open>catch\<close> and \<open>finally\<close>.\<close>

definition callbackTokens :: "(string \<times> string) list \<Rightarrow> string \<Rightarrow> string \<Rightarrow> credentials" where
  "callbackTokens qs at expiry_date_str =
     \<lparr>access_token = Some at,
      refresh_token = orUndefined (map_of qs ''refresh_token''),
      scope = orUndefined (map_of qs ''scope''),
      token_type = orUndefined (map_of qs ''token_type''),
      expiry_date = Some (parseInt expiry_date_str)\<rparr>"

definition handleCallback :: "env \<Rightarrow> login_flow \<Rightarrow> string option \<Rightarrow> login_flow" where
  "handleCallback e fl reqUrl =
     (case reqUrl of
        None \<Rightarrow>
          fl\<lparr>loginComplete := reject (Error (''OAuth callback not received. Unexpected request: '' @ ''undefined''))
                                 (loginComplete fl),
             effects := effects fl @ [ResEnd []]\<rparr>
      | Some u \<Rightarrow>
          (if u = [] \<or> \<not> startsWith u ''/oauth2callback'' then
             fl\<lparr>loginComplete := reject (Error (''OAuth callback not received. Unexpected request: '' @ u))
                                    (loginComplete fl),
                effects := effects fl @ [ResEnd []]\<rparr>
           else
             (case searchParams e u (''http://'' @ host fl @ '':'' @ showInt (port fl)) of
                Inl err \<Rightarrow> fl\<lparr>loginComplete := reject err (loginComplete fl)\<rparr>
              | Inr qs \<Rightarrow>
                  (if map_of qs ''state'' \<noteq> Some (csrfToken fl) then
                     fl\<lparr>loginComplete := reject (Error ''OAuth state mismatch. Possible CSRF attack.'')
                                            (loginComplete fl),
                        effects := effects fl @ [ResEnd ''State mismatch. Possible CSRF attack.'']\<rparr>
                   else if truthy (map_of qs ''error'') then
                     fl\<lparr>loginComplete :=
                          reject (Error (''Google OAuth error: '' @ orElse (map_of qs ''error'') [] @ ''. ''
                                   @ orElse (map_of qs ''error_description'') ''No additional details provided''))
                            (loginComplete fl),
                        effects := effects fl @ [ResEnd []]\<rparr>
                   else
                     (case (map_of qs ''access_token'', map_of qs ''expiry_date'') of
                        (Some at, Some ex) \<Rightarrow>
                          (if at \<noteq> [] \<and> ex \<noteq> [] then
                             fl\<lparr>oAuth2Client := (oAuth2Client fl)\<lparr>credentials := callbackTokens qs at ex\<rparr>,
                                loginComplete := resolve (loginComplete fl),
                                effects := effects fl @ [SetCredentials (callbackTokens qs at ex),
                                   ResEnd ''Authentication successful! Please return to the console.'']\<rparr>
                           else
                             fl\<lparr>loginComplete :=
                                  reject (Error ''Authentication failed: Did not receive tokens from callback.'')
                                    (loginComplete fl)\<rparr>)
                      | _ \<Rightarrow>
                          fl\<lparr>loginComplete :=
                               reject (Error ''Authentication failed: Did not receive tokens from callback.'')
                                 (loginComplete fl)\<rparr>)))))"

definition requestListener :: "env \<Rightarrow> login_flow \<Rightarrow> string option \<Rightarrow> login_flow" where
  "requestListener e fl reqUrl =
     (let fl' = handleCallback e fl reqUrl
      in fl'\<lparr>server := Closed, effects := effects fl' @ [HttpClose]\<rparr>)"

text \<open>
  One event at the callback server. \<open>listen\<close> only starts the bind: the server accepts
  requests from its \<open>listening\<close> event on and until \<open>close\<close>. The \<open>error\<close> handler
  rejects the promise. The timer is not the server's: it is raced below.
\<close>

definition onEvent :: "env \<Rightarrow> login_flow \<Rightarrow> event \<Rightarrow> login_flow" where
  "onEvent e fl ev =
     (case ev of
        Bound \<Rightarrow>
          (if server fl = Starting
           then fl\<lparr>server := Accepting, effects := effects fl @ [HttpListening]\<rparr> else fl)
      | ServerError err \<Rightarrow>
          fl\<lparr>loginComplete := reject (Error (''OAuth callback server error: '' @ err)) (loginComplete fl)\<rparr>
      | Request reqUrl \<Rightarrow> (if server fl = Accepting then requestListener e fl reqUrl else fl)
      | TimerFired \<Rightarrow> fl)"

subsection \<open>\<open>getAuthenticatedClient\<close>\<close>

definition authTimeout :: int where
  "authTimeout = 5 * 60 * 1000"

definition timeoutError :: error where
  "timeoutError = Error (''Authentication timed out after 5 minutes. The browser tab may have gotten stuck in a loading state. '' @ ''Please try again.'')"

definition settled :: "promise \<Rightarrow> (error + unit) option" where
  "settled p = (case p of Pending \<Rightarrow> None | Resolved \<Rightarrow> Some (Inr ()) | Rejected err \<Rightarrow> Some (Inl err))"

text \<open>
  \<open>Promise.race([loginCompletePromise, timeoutPromise])\<close> over the events: the first of
  the two promises to settle decides. \<open>None\<close> is a race still undecided when the events
  end.
\<close>

fun race :: "env \<Rightarrow> login_flow \<Rightarrow> event list \<Rightarrow> (error + unit) option \<times> login_flow" where
  "race e fl [] = (settled (loginComplete fl), fl)"
| "race e fl (ev # rest) =
     (case loginComplete fl of
        Pending \<Rightarrow>
          (if ev = TimerFired then (Some (Inl timeoutError), fl)
           else race e (onEvent e fl ev) rest)
      | _ \<Rightarrow> (settled (loginComplete fl), fl))"

text \<open>
  While \<open>open(authUrl)\<close> is awaited (line 87) the login promise has no handler yet: the
  first one is attached by \<open>Promise.race\<close> at line 102. The server's callbacks run as
  usual, but a rejection of the login promise in this phase is an unhandled rejection, on
  which the node process ends; nothing after it is handled.
\<close>

fun whileOpen :: "env \<Rightarrow> login_flow \<Rightarrow> event list \<Rightarrow> login_flow" where
  "whileOpen e fl [] = fl"
| "whileOpen e fl (ev # rest) =
     (case loginComplete fl of
        Rejected err \<Rightarrow> fl
      | _ \<Rightarrow> whileOpen e (onEvent e fl ev) rest)"

text \<open>
  What a call comes to: \<open>result\<close> is the value returned or the error thrown, \<open>None\<close>
  while the call has not completed; \<open>unhandled\<close> is the rejection on which the process
  ended.
\<close>

record outcome =
  result :: "(error + oauth2client) option"
  unhandled :: "error option"
  manager :: auth_manager
  stored :: storage
  trace :: "effect list"

text \<open>
  Lines 86 to 106 of \<open>getAuthenticatedClient\<close>: the interactive flow on the client shell
  \<open>cl\<close>, after the calls \<open>tr\<close>. The call \<open>open(authUrl)\<close> is the effect \<open>Open\<close>; no
  event is handled between the return of \<open>authWithWeb\<close> and that call. The timer is set
  and the race begins when \<open>open\<close> has returned; a login promise settled by then decides
  the race at once.

  Modelled from the spec: \<open>utils/open-wrapper\<close> is not among the sources; by section 4.7
  a failed launch is not fatal to the flow, so the call returns normally.
\<close>

definition interactiveFlow :: "env \<Rightarrow> storage \<Rightarrow> auth_manager \<Rightarrow> oauth2client \<Rightarrow> effect list \<Rightarrow> outcome" where
  "interactiveFlow e st m cl tr =
     (case authWithWeb e (scopes m) cl of
        (Inl err, tr1) \<Rightarrow>
          \<lparr>result = Some (Inl err), unhandled = None, manager = m, stored = st, trace = tr @ tr1\<rparr>
      | (Inr webLogin, tr1) \<Rightarrow>
          (let opened = whileOpen e (loginCompletePromise webLogin) (duringOpen e);
               tr2 = tr @ tr1 @ [Open (authUrl webLogin)] @ effects opened
           in (case loginComplete opened of
                 Rejected err \<Rightarrow>
                   \<lparr>result = None, unhandled = Some err, manager = m, stored = st, trace = tr2\<rparr>
               | _ \<Rightarrow>
                   (let tr3 = tr2 @ [SetTimeout authTimeout]
                    in (case race e (opened\<lparr>effects := []\<rparr>) (events e) of
                          (None, fl) \<Rightarrow>
                            \<lparr>result = None, unhandled = None, manager = m, stored = st,
                             trace = tr3 @ effects fl\<rparr>
                        | (Some (Inl err), fl) \<Rightarrow>
                            \<lparr>result = Some (Inl err), unhandled = None, manager = m, stored = st,
                             trace = tr3 @ effects fl\<rparr>
                        | (Some (Inr _), fl) \<Rightarrow>
                            (let creds = credentials (oAuth2Client fl);
                                 tr4 = tr3 @ effects fl @ [StorageSet (toMcpCredentials (dateNow e) creds)]
                             in (case saveCredentials (dateNow e) st creds of
                                   Inl err \<Rightarrow>
                                     \<lparr>result = Some (Inl err), unhandled = None, manager = m,
                                      stored = st, trace = tr4\<rparr>
                                 | Inr st' \<Rightarrow>
                                     \<lparr>result = Some (Inr (oAuth2Client fl)), unhandled = None,
                                      manager = m\<lparr>client := Some (oAuth2Client fl)\<rparr>,
                                      stored = st', trace = tr4\<rparr>)))))))"

definition newOAuth2 :: oauth2client where
  "newOAuth2 = \<lparr>clientId = CLIENT_ID, credentials = noCredentials\<rparr>"

definition cachedClient :: "auth_manager \<Rightarrow> oauth2client option" where
  "cachedClient m =
     (case client m of
        None \<Rightarrow> None
      | Some c \<Rightarrow> if truthy (refresh_token (credentials c)) then Some c else None)"

definition getAuthenticatedClient :: "env \<Rightarrow> storage \<Rightarrow> auth_manager \<Rightarrow> outcome" where
  "getAuthenticatedClient e st m =
     (case cachedClient m of
        Some c \<Rightarrow> \<lparr>result = Some (Inr c), unhandled = None, manager = m, stored = st, trace = []\<rparr>
      | None \<Rightarrow>
          (case loadCachedCredentials st (scopes m) newOAuth2 of
             (Inl err, st', cl, tr) \<Rightarrow>
               \<lparr>result = Some (Inl err), unhandled = None, manager = m, stored = st', trace = tr\<rparr>
           | (Inr True, st', cl, tr) \<Rightarrow>
               \<lparr>result = Some (Inr cl), unhandled = None, manager = m\<lparr>client := Some cl\<rparr>,
                stored = st', trace = tr\<rparr>
           | (Inr False, st', cl, tr) \<Rightarrow> interactiveFlow e st' m cl tr))"

text \<open>Successive calls on one manager: each call starts from what the last one left.\<close>

fun repeatedCalls :: "env list \<Rightarrow> storage \<Rightarrow> auth_manager \<Rightarrow> outcome list" where
  "repeatedCalls [] st m = []"
| "repeatedCalls (e # es) st m =
     (let r = getAuthenticatedClient e st m in r # repeatedCalls es (stored r) (manager r))"

text \<open>
  \<open>firstBefore P Q tr\<close>: reading the trace from its start, a call satisfying \<open>P\<close> is met
  before any call satisfying \<open>Q\<close> (or no \<open>Q\<close> is met at all).
\<close>

fun firstBefore :: "(effect \<Rightarrow> bool) \<Rightarrow> (effect \<Rightarrow> bool) \<Rightarrow> effect list \<Rightarrow> bool" where
  "firstBefore P Q [] = True"
| "firstBefore P Q (x # xs) = (if P x then True else if Q x then False else firstBefore P Q xs)"

definition isOpen :: "effect \<Rightarrow> bool" where
  "isOpen x = (case x of Open _ \<Rightarrow> True | _ \<Rightarrow> False)"

definition isHttpListen :: "effect \<Rightarrow> bool" where
  "isHttpListen x = (case x of HttpListen _ _ \<Rightarrow> True | _ \<Rightarrow> False)"

definition isHttpListening :: "effect \<Rightarrow> bool" where
  "isHttpListening x = (case x of HttpListening \<Rightarrow> True | _ \<Rightarrow> False)"

definition isStorageDelete :: "effect \<Rightarrow> bool" where
  "isStorageDelete x = (case x of StorageDelete _ \<Rightarrow> True | _ \<Rightarrow> False)"

definition isStorageSet :: "effect \<Rightarrow> bool" where
  "isStorageSet x = (case x of StorageSet _ \<Rightarrow> True | _ \<Rightarrow> False)"

definition isSetCredentials :: "effect \<Rightarrow> bool" where
  "isSetCredentials x = (case x of SetCredentials _ \<Rightarrow> True | _ \<Rightarrow> False)"

text \<open>
  The words of the specification for the port override: the value is an integer in
  \<open>[1,65535]\<close>, written in decimal.
\<close>

definition integerInPortRange :: "string \<Rightarrow> bool" where
  "integerInPortRange s = (s \<noteq> [] \<and> list_all isDigit s \<and> 1 \<le> digitsValue s \<and> digitsValue s \<le> 65535)"

section \<open>The secure browser launcher\<close>

text \<open>
  Modelled from the spec: \<open>utils/secure-browser-launcher\<close> is not among the sources, only
  its tests are. Section 4.7: the URL must parse as an absolute URL, its scheme must be
  \<open>http\<close> or \<open>https\<close>, it must hold none of the characters \<open>\n\<close>, \<open>\r\<close>, NUL; then the
  platform decides the command, and every argument goes in an argument vector. The
  process-spawning primitive is a parameter: it tells whether the command exits with 0.
\<close>

datatype launch_error =
    InvalidUrl
  | UnsafeProtocol string
  | InvalidCharacters
  | UnsupportedPlatform string
  | FailedToOpenBrowser

datatype platform = Darwin | Win32 | Linux | OtherPlatform string

definition isAlpha :: "char \<Rightarrow> bool" where
  "isAlpha c = (((65::nat) \<le> of_char c \<and> of_char c \<le> (90::nat)) \<or> ((97::nat) \<le> of_char c \<and> of_char c \<le> (122::nat)))"

definition isSchemeChar :: "char \<Rightarrow> bool" where
  "isSchemeChar c = (isAlpha c \<or> isDigit c \<or> c = CHR ''+'' \<or> c = CHR ''-'' \<or> c = CHR ''.'')"

text \<open>The scheme of an absolute URL: a letter, then letters, digits, \<open>+\<close>, \<open>-\<close>, \<open>.\<close>, up to the first colon.\<close>

definition urlScheme :: "string \<Rightarrow> string option" where
  "urlScheme u =
     (let s = takeWhile (\<lambda>c. c \<noteq> CHR '':'') u
      in if length s < length u \<and> s \<noteq> [] \<and> isAlpha (hd s) \<and> list_all isSchemeChar s
         then Some s else None)"

definition isControl :: "char \<Rightarrow> bool" where
  "isControl c = (c = CHR 0x0A \<or> c = CHR 0x0D \<or> c = CHR 0x00)"

definition validateUrl :: "string \<Rightarrow> launch_error + unit" where
  "validateUrl u =
     (case urlScheme u of
        None \<Rightarrow> Inl InvalidUrl
      | Some s \<Rightarrow>
          (if s \<noteq> ''http'' \<and> s \<noteq> ''https'' then Inl (UnsafeProtocol s)
           else if list_ex isControl u then Inl InvalidCharacters
           else Inr ()))"

text \<open>PowerShell literal-string escaping: every single quote is doubled.\<close>

definition escapeSingleQuotes :: "string \<Rightarrow> string" where
  "escapeSingleQuotes u = concat (map (\<lambda>c. if c = CHR 0x27 then [CHR 0x27, CHR 0x27] else [c]) u)"

definition powershellArgs :: "string \<Rightarrow> string list" where
  "powershellArgs u =
     [''-NoProfile'', ''-NonInteractive'', ''-WindowStyle'', ''Hidden'', ''-Command'',
      ''Start-Process '' @ [CHR 0x27] @ escapeSingleQuotes u @ [CHR 0x27]]"

type_synonym spawn = "string \<times> string list"

definition openBrowserSecurely ::
  "platform \<Rightarrow> (string \<Rightarrow> string list \<Rightarrow> bool) \<Rightarrow> string \<Rightarrow> (launch_error + unit) \<times> spawn list" where
  "openBrowserSecurely pf execFile u =
     (case validateUrl u of
        Inl err \<Rightarrow> (Inl err, [])
      | Inr _ \<Rightarrow>
          (case pf of
             Darwin \<Rightarrow>
               (if execFile ''open'' [u] then (Inr (), [(''open'', [u])])
                else (Inl FailedToOpenBrowser, [(''open'', [u])]))
           | Win32 \<Rightarrow>
               (if execFile ''powershell.exe'' (powershellArgs u)
                then (Inr (), [(''powershell.exe'', powershellArgs u)])
                else (Inl FailedToOpenBrowser, [(''powershell.exe'', powershellArgs u)]))
           | Linux \<Rightarrow>
               (if execFile ''xdg-open'' [u] then (Inr (), [(''xdg-open'', [u])])
                else if execFile ''gnome-open'' [u]
                  then (Inr (), [(''xdg-open'', [u]), (''gnome-open'', [u])])
                else (Inl FailedToOpenBrowser, [(''xdg-open'', [u]), (''gnome-open'', [u])]))
           | OtherPlatform name \<Rightarrow> (Inl (UnsupportedPlatform name), [])))"

text \<open>The URL is carried by one element of the argument vector, the last.\<close>

definition carriesUrl :: "platform \<Rightarrow> string \<Rightarrow> spawn \<Rightarrow> bool" where
  "carriesUrl pf u sp =
     (case pf of
        Win32 \<Rightarrow> snd sp = powershellArgs u
      | _ \<Rightarrow> snd sp = [u])"

section \<open>The hybrid credential store\<close>

text \<open>
  Modelled from the spec: \<open>token-storage/hybrid-token-storage\<close> is not among the sources,
  only its tests are. Section 4.5: the backend is chosen on first use and cached. With
  the force-file override the file store is taken and the keychain is not probed;
  otherwise the keychain is probed and taken when the probe resolves true, and the file
  store is taken when the probe resolves false or throws. Every operation then goes to
  the cached backend. The answer of the \<open>n\<close>-th probe is a parameter.
\<close>

datatype backend = Keychain | EncryptedFile

datatype probe = ProbeTrue | ProbeFalse | ProbeThrows

datatype store_op =
    GetCredentials string
  | SetCredentialsOp oauth_credentials
  | DeleteCredentials string
  | ListServers
  | GetAllCredentials
  | ClearAll

record hybrid =
  selected :: "backend option"
  probes :: nat
  delegated :: "(backend \<times> store_op) list"

definition newHybrid :: hybrid where
  "newHybrid = \<lparr>selected = None, probes = 0, delegated = []\<rparr>"

definition initializeStorage :: "bool \<Rightarrow> (nat \<Rightarrow> probe) \<Rightarrow> hybrid \<Rightarrow> backend \<times> hybrid" where
  "initializeStorage forceFile isAvailable h =
     (case selected h of
        Some b \<Rightarrow> (b, h)
      | None \<Rightarrow>
          (if forceFile then (EncryptedFile, h\<lparr>selected := Some EncryptedFile\<rparr>)
           else (case isAvailable (probes h) of
                   ProbeTrue \<Rightarrow> (Keychain, h\<lparr>selected := Some Keychain, probes := probes h + 1\<rparr>)
                 | _ \<Rightarrow> (EncryptedFile, h\<lparr>selected := Some EncryptedFile, probes := probes h + 1\<rparr>))))"

definition hybridOp :: "bool \<Rightarrow> (nat \<Rightarrow> probe) \<Rightarrow> hybrid \<Rightarrow> store_op \<Rightarrow> hybrid" where
  "hybridOp forceFile isAvailable h op =
     (case initializeStorage forceFile isAvailable h of
        (b, h') \<Rightarrow> h'\<lparr>delegated := delegated h' @ [(b, op)]\<rparr>)"

definition hybridOps :: "bool \<Rightarrow> (nat \<Rightarrow> probe) \<Rightarrow> hybrid \<Rightarrow> store_op list \<Rightarrow> hybrid" where
  "hybridOps forceFile isAvailable h ops = foldl (hybridOp forceFile isAvailable) h ops"

definition chosenBackend :: "bool \<Rightarrow> (nat \<Rightarrow> probe) \<Rightarrow> backend" where
  "chosenBackend forceFile isAvailable =
     (if forceFile then EncryptedFile
      else if isAvailable 0 = ProbeTrue then Keychain else EncryptedFile)"

section \<open>The encryption primitive\<close>

text \<open>
  Modelled from the spec: \<open>token-storage/file-token-storage\<close> is not among the sources,
  only its tests are. Sections 3 and 4.1: authenticated symmetric encryption in the manner
  of AES-256-GCM with an initialization vector per call; the blob is three hex fields
  joined by a colon; \<open>decrypt\<close> fails with the format error when the blob does not parse
  into three hex segments and with the authentication error when the tag does not
  verify. The block cipher behind the key stream and the tag function are parameters.
  So is the source of initialization vectors. The spec's \<open>fresh random IV per call\<close> is
  read as in symbolic models of cryptography: a source never gives a value that it gave
  before (a random generator repeats one with negligible probability only). \<open>draw s n\<close>
  is the \<open>n\<close>-th value of the source \<open>s\<close>; \<open>encrypt\<close> takes the next value of the
  source as its initialization vector and returns the number of values drawn so far with
  the blob.
\<close>

unbundle bit_operations_syntax

datatype crypto_error = InvalidFormat | AuthenticationFailed

record cipher =
  keyStream :: "byte list \<Rightarrow> byte list \<Rightarrow> nat \<Rightarrow> byte"
  authTag :: "byte list \<Rightarrow> byte list \<Rightarrow> byte list \<Rightarrow> byte list"

text \<open>A string is a list of 8-bit characters here, so its encoding is byte for byte.\<close>

definition utf8 :: "string \<Rightarrow> byte list" where
  "utf8 s = map (\<lambda>c. of_nat (of_char c)) s"

definition fromUtf8 :: "byte list \<Rightarrow> string" where
  "fromUtf8 bs = map (\<lambda>b. char_of (unat b)) bs"

definition xorStream :: "cipher \<Rightarrow> byte list \<Rightarrow> byte list \<Rightarrow> byte list \<Rightarrow> byte list" where
  "xorStream ci key iv bs = map (\<lambda>(i, b). b XOR keyStream ci key iv i) (zip [0..<length bs] bs)"

definition hexValue :: "char \<Rightarrow> nat option" where
  "hexValue c =
     (let n = (of_char c :: nat)
      in if 48 \<le> n \<and> n \<le> 57 then Some (n - 48)
         else if 97 \<le> n \<and> n \<le> 102 then Some (n - 87)
         else if 65 \<le> n \<and> n \<le> 70 then Some (n - 55)
         else None)"

fun fromHex :: "string \<Rightarrow> byte list option" where
  "fromHex [] = Some []"
| "fromHex [c] = None"
| "fromHex (a # b # r) =
     (case (hexValue a, hexValue b, fromHex r) of
        (Some x, Some y, Some bs) \<Rightarrow> Some (of_nat (16 * x + y) # bs)
      | _ \<Rightarrow> None)"

typedef iv_source = "{f :: nat \<Rightarrow> byte list. inj f}"
  morphisms draw Abs_iv_source
proof
  show "(\<lambda>n. replicate n 0) \<in> {f :: nat \<Rightarrow> byte list. inj f}"
    by (auto simp: inj_def dest: arg_cong[where f = length])
qed

setup_lifting type_definition_iv_source

definition encrypt ::
  "cipher \<Rightarrow> iv_source \<Rightarrow> nat \<Rightarrow> byte list \<Rightarrow> string \<Rightarrow> string \<times> nat" where
  "encrypt ci random drawn key plaintext =
     (let iv = draw random drawn;
          encrypted = xorStream ci key iv (utf8 plaintext);
          tag = authTag ci key iv encrypted
      in (toHex iv @ '':'' @ toHex tag @ '':'' @ toHex encrypted, Suc drawn))"

definition decrypt :: "cipher \<Rightarrow> byte list \<Rightarrow> string \<Rightarrow> crypto_error + string" where
  "decrypt ci key blob =
     (case js_split (CHR '':'') blob of
        [a, b, c] \<Rightarrow>
          (case (fromHex a, fromHex b, fromHex c) of
             (Some iv, Some tag, Some encrypted) \<Rightarrow>
               (if authTag ci key iv encrypted = tag
                then Inr (fromUtf8 (xorStream ci key iv encrypted))
                else Inl AuthenticationFailed)
           | _ \<Rightarrow> Inl InvalidFormat)
      | _ \<Rightarrow> Inl InvalidFormat)"

text \<open>
  The words of the claim: the input is three hex segments with a colon between the first
  and the second and between the second and the third. A hex segment is a string of hex
  digits, two for every byte.
\<close>

definition isHexDigit :: "char \<Rightarrow> bool" where
  "isHexDigit c = (hexValue c \<noteq> None)"

definition hexSegment :: "string \<Rightarrow> bool" where
  "hexSegment s = (list_all isHexDigit s \<and> even (length s))"

definition threeHexSegments :: "string \<Rightarrow> bool" where
  "threeHexSegments blob =
     (\<exists>a b c. blob = a @ '':'' @ b @ '':'' @ c
        \<and> hexSegment a \<and> hexSegment b \<and> hexSegment c)"

section \<open>Concrete runs\<close>

text \<open>
  An environment with the port variable \<open>portStr\<close>, a query parser that answers \<open>qs\<close> for
  every request, random bytes all equal to \<open>0xab\<close>, no event while \<open>open\<close> is awaited
  and the events \<open>evs\<close> after it.
\<close>

definition demoEnv :: "string option \<Rightarrow> (string \<times> string) list \<Rightarrow> event list \<Rightarrow> env" where
  "demoEnv portStr qs evs =
     \<lparr>OAUTH_CALLBACK_PORT = portStr, OAUTH_CALLBACK_HOST = None, shouldLaunchBrowser = True,
      randomBytes = (\<lambda>n. replicate n 0xab), ephemeral = Inr 40000,
      searchParams = (\<lambda>u b. Inr qs), dateNow = 1000, duringOpen = [], events = evs\<rparr>"

definition demoToken :: string where
  "demoToken = toHex (replicate 32 0xab)"

definition demoClient :: oauth2client where
  "demoClient = \<lparr>clientId = CLIENT_ID,
     credentials = \<lparr>access_token = Some ''tok'', refresh_token = Some ''refresh'',
       scope = Some ''scope.a'', token_type = Some ''Bearer'', expiry_date = Some (Num 5)\<rparr>\<rparr>"

definition demoManager :: auth_manager where
  "demoManager = \<lparr>client = None, scopes = [''scope.a'', ''scope.b'']\<rparr>"

definition demoStored :: oauth_credentials where
  "demoStored = \<lparr>serverName = MAIN_ACCOUNT_KEY,
     token = \<lparr>accessToken = Some ''old'', refreshToken = Some ''old-refresh'', tokenType = ''Bearer'',
       tokenScope = Some ''scope.a'', expiresAt = Some (Num 5)\<rparr>,
     updatedAt = 1\<rparr>"

text \<open>What \<open>authWithWeb\<close> returns in \<open>demoEnv\<close> without a port variable.\<close>

definition demoUrl :: "string list \<Rightarrow> auth_url" where
  "demoUrl required =
     \<lparr>redirect_uri = cloudFunctionRedirectUri, access_type = ''offline'',
      requested_scope = required,
      state = \<lparr>uri = Some (''http://'' @ ''localhost'' @ '':'' @ showInt 40000 @ ''/oauth2callback''),
               manual = False, csrf = demoToken\<rparr>,
      prompt = ''consent''\<rparr>"

definition demoFlow :: "oauth2client \<Rightarrow> login_flow" where
  "demoFlow cl =
     \<lparr>host = ''localhost'', port = 40000, csrfToken = demoToken, loginComplete = Pending,
      server = Starting, oAuth2Client = cl, effects = []\<rparr>"

definition demoLogin :: "string list \<Rightarrow> oauth2client \<Rightarrow> web_login" where
  "demoLogin required cl = \<lparr>authUrl = demoUrl required, loginCompletePromise = demoFlow cl\<rparr>"

text \<open>The same flow once the server has emitted \<open>listening\<close>.\<close>

definition demoBound :: "oauth2client \<Rightarrow> login_flow" where
  "demoBound cl = (demoFlow cl)\<lparr>server := Accepting, effects := [HttpListening]\<rparr>"


text \<open>No callback at all before the timer fires.\<close>

definition timeoutEnv :: env where
  "timeoutEnv = demoEnv None [] [Bound, TimerFired, Request (Some ''/oauth2callback'')]"

text \<open>The port variable names a port that is taken: the server emits \<open>error\<close>, never \<open>listening\<close>.\<close>

definition bindFailEnv :: env where
  "bindFailEnv = demoEnv (Some ''8080'') [] [ServerError ''Error: listen EADDRINUSE: address already in use'']"



text \<open>A store that holds credentials for \<open>scope.a\<close> only, and what \<open>loadCredentials\<close> reads from it.\<close>

definition demoStore :: storage where
  "demoStore = Map.empty(MAIN_ACCOUNT_KEY \<mapsto> demoStored)"

definition demoGoogle :: credentials where
  "demoGoogle = \<lparr>access_token = Some ''old'', refresh_token = Some ''old-refresh'',
     scope = Some ''scope.a'', token_type = Some ''Bearer'', expiry_date = Some (Num 5)\<rparr>"

text \<open>A successful callback that carries no \<open>scope\<close> parameter.\<close>

definition noScopeQuery :: "(string \<times> string) list" where
  "noScopeQuery = [(''state'', demoToken), (''access_token'', ''tok''), (''expiry_date'', ''1999'')]"

definition noScopeEnv :: env where
  "noScopeEnv = demoEnv None noScopeQuery [Bound, Request (Some ''/oauth2callback?x'')]"

text \<open>The same callback, received while \<open>open\<close> is still awaited.\<close>

definition earlyNoScopeEnv :: env where
  "earlyNoScopeEnv = (demoEnv None noScopeQuery [])
     \<lparr>duringOpen := [Bound, Request (Some ''/oauth2callback?x'')]\<rparr>"

text \<open>A cipher with a constant key stream and tag, and a 32-byte key.\<close>

definition demoCipher :: cipher where
  "demoCipher = \<lparr>keyStream = (\<lambda>key iv i. 0x5a), authTag = (\<lambda>key iv encrypted. [0x01, 0x02])\<rparr>"

definition demoKey :: "byte list" where
  "demoKey = replicate 32 0x11"

text \<open>A source whose \<open>n\<close>-th value is \<open>n + 1\<close> bytes long.\<close>

lift_definition demoSource :: iv_source is "\<lambda>n. replicate (Suc n) 0x0b"
  by (auto simp: inj_def dest: arg_cong[where f = length])

section \<open>Properties of the coordinator\<close>

subsection \<open>The in-memory client\<close>

lemma cached_call:
  assumes "client m = Some c" and "truthy (refresh_token (credentials c))"
  shows "getAuthenticatedClient e st m =
    \<lparr>result = Some (Inr c), unhandled = None, manager = m, stored = st, trace = []\<rparr>"
  using assms by (simp add: getAuthenticatedClient_def cachedClient_def)

text \<open>
  Claim C3. When the manager holds a client whose credentials carry a refresh token,
  every call of \<open>getAuthenticatedClient\<close>, in any sequence of calls and whatever the
  environment, returns that client, makes no call at all (no read of the credential
  store, no listener, no browser) and leaves the manager and the store as they were: the
  cached client stays for the life of the manager.
\<close>

theorem cached_client_returned_immediately:
  assumes "client m = Some c" and "truthy (refresh_token (credentials c))"
    and "r \<in> set (repeatedCalls es st m)"
  shows "r = \<lparr>result = Some (Inr c), unhandled = None, manager = m, stored = st, trace = []\<rparr>"
  using assms(3)
proof (induction es)
  case Nil
  then show ?case by simp
next
  case (Cons e es)
  then show ?case using cached_call[OF assms(1,2), of e st] by (auto simp: Let_def)
qed

theorem cached_client_returned_immediately_witness:
  "client (demoManager\<lparr>client := Some demoClient\<rparr>) = Some demoClient
   \<and> truthy (refresh_token (credentials demoClient))
   \<and> getAuthenticatedClient (demoEnv None [] []) Map.empty (demoManager\<lparr>client := Some demoClient\<rparr>)
       = \<lparr>result = Some (Inr demoClient), unhandled = None,
          manager = demoManager\<lparr>client := Some demoClient\<rparr>, stored = Map.empty, trace = []\<rparr>"
proof -
  let ?m = "demoManager\<lparr>client := Some demoClient\<rparr>"
  have h1: "client ?m = Some demoClient" by simp
  have h2: "truthy (refresh_token (credentials demoClient))"
    by (simp add: demoClient_def truthy_def)
  have h3: "getAuthenticatedClient (demoEnv None [] []) Map.empty ?m
      \<in> set (repeatedCalls [demoEnv (Some ''1'') [] [], demoEnv None [] []] Map.empty ?m)"
    using cached_call[OF h1 h2] by (simp add: Let_def)
  show ?thesis using cached_client_returned_immediately[OF h1 h2 h3] h1 h2 by simp
qed

subsection \<open>The callback port\<close>

lemma of_char_digitChar: "d < 10 \<Longrightarrow> (of_char (digitChar d) :: nat) = 48 + d"
  by (simp add: digitChar_def)

lemma digitChar_neq:
  assumes "d < 10" and "(of_char c :: nat) < 48 \<or> 57 < (of_char c :: nat)"
  shows "digitChar d \<noteq> c"
proof
  assume "digitChar d = c"
  then have "(of_char c :: nat) = 48 + d" using of_char_digitChar[OF assms(1)] by simp
  with assms show False by auto
qed

lemma digitChar_props:
  assumes "d < 10"
  shows "isDigit (digitChar d)" and "digitValue (digitChar d) = int d"
    and "\<not> isWhiteSpace (digitChar d)" and "digitChar d \<noteq> CHR ''-''" and "digitChar d \<noteq> CHR ''+''"
proof -
  have oc: "(of_char (digitChar d) :: nat) = 48 + d" using assms by (rule of_char_digitChar)
  show "isDigit (digitChar d)" using assms by (simp add: isDigit_def oc)
  show "digitValue (digitChar d) = int d" by (simp add: digitValue_def oc)
  show "\<not> isWhiteSpace (digitChar d)"
    unfolding isWhiteSpace_def using digitChar_neq[OF assms] by auto
  show "digitChar d \<noteq> CHR ''-''" by (rule digitChar_neq[OF assms]) simp
  show "digitChar d \<noteq> CHR ''+''" by (rule digitChar_neq[OF assms]) simp
qed

lemma showNat_small: "n < 10 \<Longrightarrow> showNat n = [digitChar n]"
  by (subst showNat.simps) simp

lemma showNat_big: "\<not> n < 10 \<Longrightarrow> showNat n = showNat (n div 10) @ [digitChar (n mod 10)]"
  by (subst showNat.simps) simp

lemma showNat_digits: "showNat n \<noteq> [] \<and> list_all isDigit (showNat n)"
proof (induction n rule: showNat.induct)
  case (1 n)
  show ?case
  proof (cases "n < 10")
    case True
    then show ?thesis by (simp add: showNat_small digitChar_props(1))
  next
    case False
    moreover have "isDigit (digitChar (n mod 10))" by (rule digitChar_props(1)) simp
    ultimately show ?thesis using 1 by (simp add: showNat_big)
  qed
qed

lemma digitsValue_snoc: "digitsValue (xs @ [c]) = 10 * digitsValue xs + digitValue c"
  by (simp add: digitsValue_def)

lemma digitsValue_showNat: "digitsValue (showNat n) = int n"
proof (induction n rule: showNat.induct)
  case (1 n)
  show ?case
  proof (cases "n < 10")
    case True
    then show ?thesis by (simp add: showNat_small digitsValue_def digitChar_props(2))
  next
    case False
    have "digitsValue (showNat n) = 10 * int (n div 10) + int (n mod 10)"
      using 1 False by (simp add: showNat_big digitsValue_snoc digitChar_props(2))
    then show ?thesis by (simp add: zdiv_int zmod_int)
  qed
qed

lemma showNat_head: "\<exists>d r. d < 10 \<and> showNat n = digitChar d # r"
proof (induction n rule: showNat.induct)
  case (1 n)
  show ?case
  proof (cases "n < 10")
    case True
    then have "showNat n = [digitChar n]" by (rule showNat_small)
    with True show ?thesis by blast
  next
    case False
    from 1 False obtain d r where "d < 10" "showNat (n div 10) = digitChar d # r" by auto
    then show ?thesis using showNat_big[OF False] by auto
  qed
qed

lemma takeWhile_all: "list_all P xs \<Longrightarrow> takeWhile P xs = xs"
  by (induction xs) auto

text \<open>An integer below \<open>2 ^ 53\<close> in absolute value is its own number value.\<close>

lemma bitLength_bound: "n < 2 ^ k \<Longrightarrow> bitLength n \<le> k"
proof (induction k arbitrary: n)
  case 0
  then show ?case by (simp add: bitLength.simps)
next
  case (Suc k)
  show ?case
  proof (cases "n = 0")
    case True
    then show ?thesis by (simp add: bitLength.simps)
  next
    case False
    have "n div 2 < 2 ^ k" using Suc.prems by auto
    then have "bitLength (n div 2) \<le> k" by (rule Suc.IH)
    then show ?thesis using False by (subst bitLength.simps) simp
  qed
qed

lemma toNumber_small: "\<bar>n\<bar> < 2 ^ 53 \<Longrightarrow> toNumber n = Num n"
proof -
  assume "\<bar>n\<bar> < 2 ^ 53"
  then have "nat \<bar>n\<bar> < 2 ^ 53" by (simp add: nat_less_iff)
  then have "bitLength (nat \<bar>n\<bar>) \<le> 53" by (rule bitLength_bound)
  then show ?thesis by (simp add: toNumber_def Let_def)
qed

text \<open>A non-negative integer written in decimal is read back by \<open>parseInt\<close>.\<close>

lemma parseInt_showNat: "parseInt (showNat n) = toNumber (int n)"
proof -
  obtain d r where d: "d < 10" and eq: "showNat n = digitChar d # r"
    using showNat_head by blast
  have ws: "dropWhile isWhiteSpace (showNat n) = showNat n"
    using digitChar_props(3)[OF d] by (simp add: eq)
  have tw: "takeWhile isDigit (showNat n) = showNat n"
    using showNat_digits by (simp add: takeWhile_all)
  have ne: "showNat n \<noteq> []" using showNat_digits by simp
  have "parseInt (digitChar d # r) = toNumber (digitsValue (digitChar d # r))"
    unfolding parseInt_def using ws tw ne digitChar_props(4,5)[OF d]
    by (simp add: eq Let_def)
  then show ?thesis by (simp add: eq[symmetric] digitsValue_showNat)
qed

lemma parseInt_showInt: "0 \<le> p \<Longrightarrow> p < 2 ^ 53 \<Longrightarrow> parseInt (showInt p) = Num p"
  by (simp add: showInt_def parseInt_showNat toNumber_small)

lemma showInt_nonempty: "showInt p \<noteq> []"
  using showNat_digits by (simp add: showInt_def)

text \<open>
  Claim C4, as amended. When \<open>OAUTH_CALLBACK_PORT\<close> is set to a non-empty string, the
  port is what \<open>parseInt\<close> reads from it, and it is used exactly when that number lies in
  \<open>[1,65535]\<close>; otherwise \<open>getAvailablePort\<close> fails with the error that names the
  variable and quotes its value, having made no call, and the interactive flow ends with
  that error without binding a listener. When the variable is unset or empty, the port is
  the one the system assigns to a throwaway listener on port 0, read before the listener
  is closed. Every integer of \<open>[1,65535]\<close> written in decimal is accepted as itself.
\<close>

theorem port_override_validated:
  "(OAUTH_CALLBACK_PORT e = Some s \<and> s \<noteq> [] \<longrightarrow>
      (\<exists>p. parseInt s = Num p \<and> 1 \<le> p \<and> p \<le> 65535 \<and> getAvailablePort e = (Inr p, []))
      \<or> ((parseInt s = NaN \<or> parseInt s = PosInfinity \<or> parseInt s = NegInfinity
            \<or> (\<exists>p. parseInt s = Num p \<and> (p < 1 \<or> 65535 < p)))
          \<and> getAvailablePort e = (Inl (invalidPortValue s), [])
          \<and> interactiveFlow e st m cl tr
              = \<lparr>result = Some (Inl (invalidPortValue s)), unhandled = None, manager = m,
                 stored = st, trace = tr\<rparr>))
   \<and> (OAUTH_CALLBACK_PORT e = None \<or> OAUTH_CALLBACK_PORT e = Some [] \<longrightarrow>
        getAvailablePort e =
          (case ephemeral e of
             Inl err \<Rightarrow> (Inl err, [NetListen 0])
           | Inr p \<Rightarrow> (Inr p, [NetListen 0, NetClose])))
   \<and> (1 \<le> q \<and> q \<le> 65535 \<and> OAUTH_CALLBACK_PORT e = Some (showInt q) \<longrightarrow>
        getAvailablePort e = (Inr q, []))"
proof (intro conjI impI)
  assume a: "OAUTH_CALLBACK_PORT e = Some s \<and> s \<noteq> []"
  show "(\<exists>p. parseInt s = Num p \<and> 1 \<le> p \<and> p \<le> 65535 \<and> getAvailablePort e = (Inr p, []))
      \<or> ((parseInt s = NaN \<or> parseInt s = PosInfinity \<or> parseInt s = NegInfinity
            \<or> (\<exists>p. parseInt s = Num p \<and> (p < 1 \<or> 65535 < p)))
          \<and> getAvailablePort e = (Inl (invalidPortValue s), [])
          \<and> interactiveFlow e st m cl tr
              = \<lparr>result = Some (Inl (invalidPortValue s)), unhandled = None, manager = m,
                 stored = st, trace = tr\<rparr>)"
  proof (cases "parseInt s")
    case NaN
    then show ?thesis using a
      by (simp add: getAvailablePort_def interactiveFlow_def authWithWeb_def invalidPort_def)
  next
    case (Num p)
    then show ?thesis using a
      by (auto simp: getAvailablePort_def interactiveFlow_def authWithWeb_def invalidPort_def)
  next
    case PosInfinity
    then show ?thesis using a
      by (simp add: getAvailablePort_def interactiveFlow_def authWithWeb_def invalidPort_def)
  next
    case NegInfinity
    then show ?thesis using a
      by (simp add: getAvailablePort_def interactiveFlow_def authWithWeb_def invalidPort_def)
  qed
next
  assume "OAUTH_CALLBACK_PORT e = None \<or> OAUTH_CALLBACK_PORT e = Some []"
  then show "getAvailablePort e =
          (case ephemeral e of
             Inl err \<Rightarrow> (Inl err, [NetListen 0])
           | Inr p \<Rightarrow> (Inr p, [NetListen 0, NetClose]))"
    by (auto simp: getAvailablePort_def throwawayListener_def)
next
  assume a: "1 \<le> q \<and> q \<le> 65535 \<and> OAUTH_CALLBACK_PORT e = Some (showInt q)"
  then have "parseInt (showInt q) = Num q" by (simp add: parseInt_showInt)
  then show "getAvailablePort e = (Inr q, [])" using a showInt_nonempty[of q]
    by (simp add: getAvailablePort_def invalidPort_def)
qed

theorem port_override_validated_witness:
  "(1::int) \<le> 8080 \<and> (8080::int) \<le> 65535
   \<and> OAUTH_CALLBACK_PORT (demoEnv (Some ''8080'') [] []) = Some (showInt 8080)
   \<and> getAvailablePort (demoEnv (Some ''8080'') [] []) = (Inr 8080, [])
   \<and> OAUTH_CALLBACK_PORT (demoEnv None [] []) = None
   \<and> getAvailablePort (demoEnv None [] []) = (Inr 40000, [NetListen 0, NetClose])"
proof -
  have s: "showInt 8080 = ''8080''"
    by (simp add: showInt_def showNat.simps digitChar_def char_of_def bit_iff_odd)
  have h: "(1::int) \<le> 8080 \<and> (8080::int) \<le> 65535
      \<and> OAUTH_CALLBACK_PORT (demoEnv (Some ''8080'') [] []) = Some (showInt 8080)"
    unfolding s by (simp add: demoEnv_def)
  have n: "OAUTH_CALLBACK_PORT (demoEnv None [] []) = None \<or> OAUTH_CALLBACK_PORT (demoEnv None [] []) = Some []"
    by (simp add: demoEnv_def)
  have eph: "ephemeral (demoEnv None [] []) = Inr 40000" by (simp add: demoEnv_def)
  have a: "getAvailablePort (demoEnv (Some ''8080'') [] []) = (Inr 8080, [])"
    using port_override_validated[of "demoEnv (Some ''8080'') [] []" "[]" Map.empty
        demoManager newOAuth2 "[]" 8080, THEN conjunct2, THEN conjunct2, THEN mp, OF h] .
  have b: "getAvailablePort (demoEnv None [] []) =
      (case ephemeral (demoEnv None [] []) of
         Inl err \<Rightarrow> (Inl err, [NetListen 0])
       | Inr p \<Rightarrow> (Inr p, [NetListen 0, NetClose]))"
    using port_override_validated[of "demoEnv None [] []" "[]" Map.empty
        demoManager newOAuth2 "[]" 1, THEN conjunct2, THEN conjunct1, THEN mp, OF n] .
  have c: "OAUTH_CALLBACK_PORT (demoEnv None [] []) = None" by (simp add: demoEnv_def)
  from h a b c show ?thesis unfolding eph by simp
qed

text \<open>
  The claim as it stands fails twice: the value \<open>8080abc\<close> is no integer and is accepted
  as port 8080, and the empty value is set, fails no validation and gets the port of the
  throwaway listener instead of an error.
\<close>

theorem port_override_counterexample:
  "OAUTH_CALLBACK_PORT (demoEnv (Some ''8080abc'') [] []) = Some ''8080abc''
   \<and> \<not> integerInPortRange ''8080abc''
   \<and> getAvailablePort (demoEnv (Some ''8080abc'') [] []) = (Inr 8080, [])
   \<and> OAUTH_CALLBACK_PORT (demoEnv (Some []) [] []) = Some []
   \<and> \<not> integerInPortRange []
   \<and> getAvailablePort (demoEnv (Some []) [] []) = (Inr 40000, [NetListen 0, NetClose])"
proof -
  have p: "parseInt ''8080abc'' = Num 8080"
    by (simp add: parseInt_def isWhiteSpace_def isDigit_def digitsValue_def digitValue_def
        toNumber_small)
  have a: "getAvailablePort (demoEnv (Some ''8080abc'') [] []) = (Inr 8080, [])"
    by (simp add: getAvailablePort_def demoEnv_def p invalidPort_def)
  have b: "getAvailablePort (demoEnv (Some []) [] []) = (Inr 40000, [NetListen 0, NetClose])"
    by (simp add: getAvailablePort_def demoEnv_def throwawayListener_def)
  have c: "\<not> integerInPortRange ''8080abc''"
    by (simp add: integerInPortRange_def isDigit_def)
  have d: "\<not> integerInPortRange []" by (simp add: integerInPortRange_def)
  from a b c d show ?thesis by (simp add: demoEnv_def)
qed

subsection \<open>The callback server and the race\<close>

lemma reject_not_pending: "reject err p \<noteq> Pending"
  by (cases p) (simp_all add: reject_def)

lemma resolve_not_pending: "resolve p \<noteq> Pending"
  by (cases p) (simp_all add: resolve_def)

lemma reject_pending: "reject err Pending = Rejected err"
  by (simp add: reject_def)

lemma resolve_pending: "resolve Pending = Resolved"
  by (simp add: resolve_def)

text \<open>Every path of the request handler settles the login promise.\<close>

lemma handleCallback_settles: "loginComplete (handleCallback e fl reqUrl) \<noteq> Pending"
  by (simp add: handleCallback_def reject_not_pending resolve_not_pending
      split: option.split sum.split prod.split)


lemma requestListener_settles: "loginComplete (requestListener e fl reqUrl) \<noteq> Pending"
  using handleCallback_settles[of e fl reqUrl] by (simp add: requestListener_def Let_def)

text \<open>The closure of the handler does not change.\<close>

lemma handleCallback_closure:
  "host (handleCallback e fl reqUrl) = host fl \<and> port (handleCallback e fl reqUrl) = port fl
   \<and> csrfToken (handleCallback e fl reqUrl) = csrfToken fl
   \<and> server (handleCallback e fl reqUrl) = server fl"
  by (simp add: handleCallback_def split: option.split sum.split prod.split)

lemma onEvent_closure:
  "host (onEvent e fl ev) = host fl \<and> port (onEvent e fl ev) = port fl
   \<and> csrfToken (onEvent e fl ev) = csrfToken fl"
  by (cases ev) (simp_all add: onEvent_def requestListener_def Let_def handleCallback_closure)

text \<open>An event that leaves the promise pending ran no handler.\<close>

lemma onEvent_pending:
  assumes "loginComplete (onEvent e fl ev) = Pending"
  shows "oAuth2Client (onEvent e fl ev) = oAuth2Client fl
     \<and> (effects (onEvent e fl ev) = effects fl \<or> effects (onEvent e fl ev) = effects fl @ [HttpListening])"
proof (cases ev)
  case Bound
  then show ?thesis by (simp add: onEvent_def)
next
  case (ServerError err)
  then show ?thesis by (simp add: onEvent_def)
next
  case (Request reqUrl)
  then show ?thesis using assms requestListener_settles[of e fl reqUrl]
    by (simp add: onEvent_def split: if_splits)
next
  case TimerFired
  then show ?thesis by (simp add: onEvent_def)
qed

lemma race_settled:
  "loginComplete fl \<noteq> Pending \<Longrightarrow> race e fl evs = (settled (loginComplete fl), fl)"
  by (cases evs; cases "loginComplete fl") simp_all

lemma race_pending_step:
  "loginComplete fl = Pending \<Longrightarrow> ev \<noteq> TimerFired \<Longrightarrow> race e fl (ev # rest) = race e (onEvent e fl ev) rest"
  by simp

lemma race_pending_timer:
  "loginComplete fl = Pending \<Longrightarrow> race e fl (TimerFired # rest) = (Some (Inl timeoutError), fl)"
  by simp

lemma settled_None: "settled p = None \<longleftrightarrow> p = Pending"
  by (cases p) (simp_all add: settled_def)

lemma race_None:
  "race e fl evs = (None, fl') \<Longrightarrow> loginComplete fl = Pending \<and> loginComplete fl' = Pending"
proof (induction evs arbitrary: fl)
  case Nil
  then show ?case by (auto simp: settled_None)
next
  case (Cons ev rest)
  show ?case
  proof (cases "loginComplete fl = Pending")
    case True
    then show ?thesis using Cons by (cases "ev = TimerFired") auto
  next
    case False
    have "race e fl (ev # rest) = (settled (loginComplete fl), fl)"
      by (rule race_settled[OF False])
    with Cons.prems have "settled (loginComplete fl) = None" by (auto simp del: race.simps)
    with False show ?thesis by (simp add: settled_None)
  qed
qed

text \<open>The race over a run of events that leaves it open continues with the events that follow.\<close>

lemma race_append:
  "race e fl pre = (None, fl') \<Longrightarrow> race e fl (pre @ evs) = race e fl' evs"
proof (induction pre arbitrary: fl)
  case Nil
  then show ?case by simp
next
  case (Cons ev rest)
  have p: "loginComplete fl = Pending" using race_None[OF Cons.prems] by simp
  show ?case
  proof (cases "ev = TimerFired")
    case True
    then show ?thesis using Cons.prems p by simp
  next
    case False
    then show ?thesis using Cons p by simp
  qed
qed

lemma race_None_untouched:
  "race e fl evs = (None, fl') \<Longrightarrow>
     oAuth2Client fl' = oAuth2Client fl \<and> host fl' = host fl \<and> port fl' = port fl
     \<and> csrfToken fl' = csrfToken fl
     \<and> (list_ex isSetCredentials (effects fl') \<longleftrightarrow> list_ex isSetCredentials (effects fl))
     \<and> (list_ex isStorageSet (effects fl') \<longleftrightarrow> list_ex isStorageSet (effects fl))"
proof (induction evs arbitrary: fl)
  case Nil
  then show ?case by simp
next
  case (Cons ev rest)
  have p: "loginComplete fl = Pending" using race_None[OF Cons.prems] by simp
  have nt: "ev \<noteq> TimerFired" using Cons.prems p by auto
  have r: "race e (onEvent e fl ev) rest = (None, fl')" using Cons.prems p nt by simp
  have q: "loginComplete (onEvent e fl ev) = Pending" using race_None[OF r] by simp
  from onEvent_pending[OF q] onEvent_closure[of e fl ev] Cons.IH[OF r]
  show ?case by (auto simp: isSetCredentials_def isStorageSet_def)
qed

text \<open>A settled promise stays as it is.\<close>

lemma handleCallback_keeps:
  "loginComplete fl \<noteq> Pending \<Longrightarrow> loginComplete (handleCallback e fl reqUrl) = loginComplete fl"
  by (cases "loginComplete fl")
     (simp_all add: handleCallback_def reject_def resolve_def
        split: option.split sum.split prod.split)

lemma onEvent_keeps:
  "loginComplete fl \<noteq> Pending \<Longrightarrow> loginComplete (onEvent e fl ev) = loginComplete fl"
  by (cases ev; cases "loginComplete fl")
     (simp_all add: onEvent_def requestListener_def Let_def handleCallback_keeps reject_def)

text \<open>While \<open>open\<close> is awaited: a promise still pending at the end was pending throughout,
  and no handler has run.\<close>

lemma whileOpen_pending:
  "loginComplete (whileOpen e fl evs) = Pending \<Longrightarrow>
     loginComplete fl = Pending
     \<and> oAuth2Client (whileOpen e fl evs) = oAuth2Client fl
     \<and> host (whileOpen e fl evs) = host fl \<and> port (whileOpen e fl evs) = port fl
     \<and> csrfToken (whileOpen e fl evs) = csrfToken fl
     \<and> (list_ex isSetCredentials (effects (whileOpen e fl evs)) \<longleftrightarrow> list_ex isSetCredentials (effects fl))
     \<and> (list_ex isStorageSet (effects (whileOpen e fl evs)) \<longleftrightarrow> list_ex isStorageSet (effects fl))
     \<and> (list_ex isOpen (effects (whileOpen e fl evs)) \<longleftrightarrow> list_ex isOpen (effects fl))"
proof (induction evs arbitrary: fl)
  case Nil
  then show ?case by simp
next
  case (Cons ev rest)
  have p: "loginComplete fl = Pending"
  proof (cases "loginComplete fl")
    case (Rejected err)
    then show ?thesis using Cons.prems by simp
  next
    case Resolved
    then have k: "loginComplete (onEvent e fl ev) = Resolved" by (simp add: onEvent_keeps)
    have "whileOpen e fl (ev # rest) = whileOpen e (onEvent e fl ev) rest"
      using Resolved by simp
    then have "loginComplete (whileOpen e (onEvent e fl ev) rest) = Pending"
      using Cons.prems by simp
    from Cons.IH[OF this] k show ?thesis by simp
  qed simp
  have w: "whileOpen e fl (ev # rest) = whileOpen e (onEvent e fl ev) rest" using p by simp
  have q: "loginComplete (whileOpen e (onEvent e fl ev) rest) = Pending"
    using Cons.prems w by simp
  note ih = Cons.IH[OF q]
  then have q1: "loginComplete (onEvent e fl ev) = Pending" by simp
  from p onEvent_pending[OF q1] onEvent_closure[of e fl ev] ih
  show ?case unfolding w by (auto simp: isSetCredentials_def isStorageSet_def isOpen_def)
qed


subsection \<open>From the entry point to the interactive flow\<close>

lemma loadCachedCredentials_False:
  assumes "loadCachedCredentials st required cl0 = (Inr False, st', cl, tr)"
  shows "cl = cl0
     \<and> (tr = [StorageGet MAIN_ACCOUNT_KEY]
          \<or> tr = [StorageGet MAIN_ACCOUNT_KEY, StorageDelete MAIN_ACCOUNT_KEY])"
  using assms
  by (auto simp: loadCachedCredentials_def split: sum.splits option.splits if_splits)

lemma getAvailablePort_trace:
  "snd (getAvailablePort e) = [] \<or> snd (getAvailablePort e) = [NetListen 0]
   \<or> snd (getAvailablePort e) = [NetListen 0, NetClose]"
  by (simp add: getAvailablePort_def throwawayListener_def split: option.split sum.split jsnum.split)

lemma authWithWeb_Inr:
  assumes "authWithWeb e required cl = (Inr w, tr1)"
  shows "\<exists>p tr0. getAvailablePort e = (Inr p, tr0)
     \<and> tr1 = tr0 @ [HttpListen p (orElse (OAUTH_CALLBACK_HOST e) ''localhost'')]
     \<and> loginCompletePromise w =
         \<lparr>host = orElse (OAUTH_CALLBACK_HOST e) ''localhost'', port = p,
          csrfToken = toHex (randomBytes e 32), loginComplete = Pending, server = Starting,
          oAuth2Client = cl, effects = []\<rparr>"
  using assms
  by (cases "getAvailablePort e") (auto simp: authWithWeb_def Let_def split: sum.splits)

lemma authWithWeb_Inl:
  assumes "authWithWeb e required cl = (Inl err, tr1)"
  shows "getAvailablePort e = (Inl err, tr1)"
  using assms
  by (cases "getAvailablePort e") (auto simp: authWithWeb_def Let_def split: sum.splits)

lemma authWithWeb_trace:
  assumes "authWithWeb e required cl = (x, tr1)"
  shows "\<not> list_ex isSetCredentials tr1 \<and> \<not> list_ex isStorageSet tr1 \<and> \<not> list_ex isOpen tr1"
proof (cases x)
  case (Inl err)
  then have "snd (getAvailablePort e) = tr1" using authWithWeb_Inl assms by fastforce
  then show ?thesis using getAvailablePort_trace[of e]
    by (auto simp: isSetCredentials_def isStorageSet_def isOpen_def)
next
  case (Inr w)
  then obtain p tr0 where "getAvailablePort e = (Inr p, tr0)"
    and "tr1 = tr0 @ [HttpListen p (orElse (OAUTH_CALLBACK_HOST e) ''localhost'')]"
    using authWithWeb_Inr assms by blast
  then show ?thesis using getAvailablePort_trace[of e]
    by (auto simp: isSetCredentials_def isStorageSet_def isOpen_def)
qed

lemma entry_to_interactive:
  assumes "cachedClient m = None"
    and "loadCachedCredentials st (scopes m) newOAuth2 = (Inr False, st', cl, tr)"
  shows "getAuthenticatedClient e st m = interactiveFlow e st' m cl tr"
  using assms by (simp add: getAuthenticatedClient_def)

lemma interactive_rejected:
  assumes "authWithWeb e (scopes m) cl = (Inr w, tr1)"
    and "whileOpen e (loginCompletePromise w) (duringOpen e) = opened"
    and "loginComplete opened = Pending"
    and "race e (opened\<lparr>effects := []\<rparr>) (events e) = (Some (Inl err), fl)"
  shows "interactiveFlow e st m cl tr =
     \<lparr>result = Some (Inl err), unhandled = None, manager = m, stored = st,
      trace = tr @ tr1 @ [Open (authUrl w)] @ effects opened @ [SetTimeout authTimeout] @ effects fl\<rparr>"
  using assms by (simp add: interactiveFlow_def Let_def)



text \<open>What is known of a race that is still open, from the start of the flow on.\<close>

lemma open_race_untouched:
  assumes "authWithWeb e required cl = (Inr w, tr1)"
    and "whileOpen e (loginCompletePromise w) (duringOpen e) = opened"
    and "race e (opened\<lparr>effects := []\<rparr>) pre = (None, fl)"
  shows "loginComplete opened = Pending \<and> loginComplete fl = Pending
     \<and> csrfToken fl = toHex (randomBytes e 32) \<and> oAuth2Client fl = cl
     \<and> host fl = orElse (OAUTH_CALLBACK_HOST e) ''localhost''
     \<and> \<not> list_ex isSetCredentials (effects opened) \<and> \<not> list_ex isStorageSet (effects opened)
     \<and> \<not> list_ex isSetCredentials (effects fl) \<and> \<not> list_ex isStorageSet (effects fl)"
proof -
  let ?fl0 = "loginCompletePromise w"
  from authWithWeb_Inr[OF assms(1)]
  have tok: "csrfToken ?fl0 = toHex (randomBytes e 32)" and e0: "effects ?fl0 = []"
    and c0: "oAuth2Client ?fl0 = cl" and h0: "host ?fl0 = orElse (OAUTH_CALLBACK_HOST e) ''localhost''"
    by auto
  from race_None[OF assms(3)] have p1: "loginComplete opened = Pending"
    and p2: "loginComplete fl = Pending" by simp_all
  have "loginComplete (whileOpen e ?fl0 (duringOpen e)) = Pending" using p1 assms(2) by simp
  from whileOpen_pending[OF this] tok e0 c0 h0 assms(2)
  have o: "csrfToken opened = toHex (randomBytes e 32)" "oAuth2Client opened = cl"
    "host opened = orElse (OAUTH_CALLBACK_HOST e) ''localhost''"
    "\<not> list_ex isSetCredentials (effects opened)" "\<not> list_ex isStorageSet (effects opened)"
    by simp_all
  from race_None_untouched[OF assms(3)] o
  have "csrfToken fl = toHex (randomBytes e 32)" "oAuth2Client fl = cl"
    "host fl = orElse (OAUTH_CALLBACK_HOST e) ''localhost''"
    "\<not> list_ex isSetCredentials (effects fl)" "\<not> list_ex isStorageSet (effects fl)"
    by simp_all
  with p1 p2 o show ?thesis by simp
qed

subsection \<open>A callback with the wrong state\<close>


subsection \<open>The timeout\<close>

text \<open>
  Claim C5. The interactive flow sets one timer of \<open>5 * 60 * 1000\<close> milliseconds and races
  it against the login promise. When the timer fires while the login promise is still
  pending, \<open>getAuthenticatedClient\<close> rejects with the timeout error, whose message names the
  stuck browser tab; nothing is handed to the credential store, the store and the
  manager are as they were before the flow.
\<close>

theorem timeout_rejects:
  assumes "cachedClient m = None"
    and "loadCachedCredentials st (scopes m) newOAuth2 = (Inr False, st', cl, tr)"
    and "authWithWeb e (scopes m) cl = (Inr w, tr1)"
    and "whileOpen e (loginCompletePromise w) (duringOpen e) = opened"
    and "events e = pre @ TimerFired # post"
    and "race e (opened\<lparr>effects := []\<rparr>) pre = (None, fl)"
  shows "getAuthenticatedClient e st m =
           \<lparr>result = Some (Inl timeoutError), unhandled = None, manager = m, stored = st',
            trace = tr @ tr1 @ [Open (authUrl w)] @ effects opened @ [SetTimeout authTimeout]
                    @ effects fl\<rparr>
         \<and> authTimeout = 300000
         \<and> timeoutError = Error ''Authentication timed out after 5 minutes. The browser tab may have gotten stuck in a loading state. Please try again.''
         \<and> \<not> list_ex isStorageSet (trace (getAuthenticatedClient e st m))"
proof -
  let ?fl1 = "opened\<lparr>effects := []\<rparr>"
  note known = open_race_untouched[OF assms(3) assms(4) assms(6)]
  then have pend: "loginComplete fl = Pending" and p1: "loginComplete opened = Pending"
    and noss: "\<not> list_ex isStorageSet (effects fl)" "\<not> list_ex isStorageSet (effects opened)"
    by simp_all
  have "race e ?fl1 (events e) = race e fl (TimerFired # post)"
    unfolding assms(5) by (rule race_append[OF assms(6)])
  also have "\<dots> = (Some (Inl timeoutError), fl)"
    by (rule race_pending_timer[OF pend])
  finally have r: "race e ?fl1 (events e) = (Some (Inl timeoutError), fl)" .
  have main: "getAuthenticatedClient e st m =
           \<lparr>result = Some (Inl timeoutError), unhandled = None, manager = m, stored = st',
            trace = tr @ tr1 @ [Open (authUrl w)] @ effects opened @ [SetTimeout authTimeout]
                    @ effects fl\<rparr>"
    unfolding entry_to_interactive[OF assms(1,2)] interactive_rejected[OF assms(3) assms(4) p1 r]
    by simp
  from loadCachedCredentials_False[OF assms(2)]
  have trn: "\<not> list_ex isStorageSet tr" by (auto simp: isStorageSet_def)
  note tr1n = authWithWeb_trace[OF assms(3)]
  have b: "\<not> list_ex isStorageSet (trace (getAuthenticatedClient e st m))"
    unfolding main using trn tr1n noss by (simp add: isStorageSet_def)
  have t: "authTimeout = 300000" by (simp add: authTimeout_def)
  have msg: "timeoutError = Error ''Authentication timed out after 5 minutes. The browser tab may have gotten stuck in a loading state. Please try again.''"
    by (simp add: timeoutError_def)
  from main b t msg show ?thesis by blast
qed

subsection \<open>The concrete runs\<close>



lemma demo_authWithWeb:
  "authWithWeb (demoEnv None qs evs) required cl
     = (Inr (demoLogin required cl), [NetListen 0, NetClose, HttpListen 40000 ''localhost''])"
  by (simp add: authWithWeb_def getAvailablePort_def throwawayListener_def demoEnv_def
      demoLogin_def demoUrl_def demoFlow_def demoToken_def orElse_def Let_def)

lemma demo_load_empty:
  "loadCachedCredentials Map.empty required newOAuth2
     = (Inr False, Map.empty, newOAuth2, [StorageGet MAIN_ACCOUNT_KEY])"
  by (simp add: loadCachedCredentials_def loadCredentials_def storage_getCredentials_def)

lemma demo_no_cache: "cachedClient demoManager = None"
  by (simp add: cachedClient_def demoManager_def)

lemma demoLogin_flow: "loginCompletePromise (demoLogin required cl) = demoFlow cl"
  by (simp add: demoLogin_def)

lemma demo_no_early: "whileOpen e fl (duringOpen (demoEnv portStr qs evs)) = fl"
  by (simp add: demoEnv_def)

lemma demoFlow_effects: "(demoFlow cl)\<lparr>effects := []\<rparr> = demoFlow cl"
  by (simp add: demoFlow_def)

lemma demo_race_bound: "race e (demoFlow cl) [Bound] = (None, demoBound cl)"
  by (simp add: demoFlow_def demoBound_def onEvent_def settled_def)



theorem timeout_rejects_witness:
  "events timeoutEnv = [Bound] @ TimerFired # [Request (Some ''/oauth2callback'')]
   \<and> getAuthenticatedClient timeoutEnv Map.empty demoManager =
       \<lparr>result = Some (Inl timeoutError), unhandled = None, manager = demoManager,
        stored = Map.empty,
        trace = [StorageGet MAIN_ACCOUNT_KEY, NetListen 0, NetClose, HttpListen 40000 ''localhost'',
                 Open (demoUrl (scopes demoManager)), SetTimeout authTimeout, HttpListening]\<rparr>"
proof -
  have h3: "authWithWeb timeoutEnv (scopes demoManager) newOAuth2
      = (Inr (demoLogin (scopes demoManager) newOAuth2),
         [NetListen 0, NetClose, HttpListen 40000 ''localhost''])"
    unfolding timeoutEnv_def by (rule demo_authWithWeb)
  have h4: "whileOpen timeoutEnv (loginCompletePromise (demoLogin (scopes demoManager) newOAuth2))
      (duringOpen timeoutEnv) = demoFlow newOAuth2"
    unfolding demoLogin_flow timeoutEnv_def by (rule demo_no_early)
  have h5: "events timeoutEnv = [Bound] @ TimerFired # [Request (Some ''/oauth2callback'')]"
    by (simp add: timeoutEnv_def demoEnv_def)
  have h6: "race timeoutEnv ((demoFlow newOAuth2)\<lparr>effects := []\<rparr>) [Bound]
      = (None, demoBound newOAuth2)"
    unfolding demoFlow_effects by (rule demo_race_bound)
  from timeout_rejects[OF demo_no_cache demo_load_empty h3 h4 h5 h6]
  have "getAuthenticatedClient timeoutEnv Map.empty demoManager =
       \<lparr>result = Some (Inl timeoutError), unhandled = None, manager = demoManager,
        stored = Map.empty,
        trace = [StorageGet MAIN_ACCOUNT_KEY] @ [NetListen 0, NetClose, HttpListen 40000 ''localhost'']
              @ [Open (authUrl (demoLogin (scopes demoManager) newOAuth2))]
              @ effects (demoFlow newOAuth2) @ [SetTimeout authTimeout]
              @ effects (demoBound newOAuth2)\<rparr>"
    by (rule conjunct1)
  then have "getAuthenticatedClient timeoutEnv Map.empty demoManager =
       \<lparr>result = Some (Inl timeoutError), unhandled = None, manager = demoManager,
        stored = Map.empty,
        trace = [StorageGet MAIN_ACCOUNT_KEY, NetListen 0, NetClose, HttpListen 40000 ''localhost'',
                 Open (demoUrl (scopes demoManager)), SetTimeout authTimeout, HttpListening]\<rparr>"
    by (simp add: demoLogin_def demoBound_def demoFlow_def)
  with h5 show ?thesis by blast
qed

subsection \<open>The order of the calls\<close>

lemma firstBefore_none: "\<not> list_ex Q xs \<Longrightarrow> firstBefore P Q xs"
  by (induction xs) auto

lemma firstBefore_append:
  "\<not> list_ex Q xs \<Longrightarrow> firstBefore P Q ys \<Longrightarrow> firstBefore P Q (xs @ ys)"
  by (induction xs) auto

lemma loadCachedCredentials_trace:
  assumes "loadCachedCredentials st required cl0 = (x, st', cl, tr)"
  shows "\<not> list_ex isOpen tr"
  using assms
  by (auto simp: loadCachedCredentials_def isOpen_def split: sum.splits option.splits if_splits)

lemma interactiveFlow_trace:
  "\<exists>rest. trace (interactiveFlow e st m cl tr) = tr @ rest
     \<and> firstBefore isHttpListen isOpen rest"
proof (cases "authWithWeb e (scopes m) cl")
  case (Pair x tr1)
  show ?thesis
  proof (cases x)
    case (Inl err)
    have "\<not> list_ex isOpen tr1" using authWithWeb_trace[OF Pair] by simp
    then have "firstBefore isHttpListen isOpen tr1" by (rule firstBefore_none)
    then show ?thesis using Pair Inl by (simp add: interactiveFlow_def)
  next
    case (Inr w)
    then obtain p tr0 where g: "getAvailablePort e = (Inr p, tr0)"
      and t: "tr1 = tr0 @ [HttpListen p (orElse (OAUTH_CALLBACK_HOST e) ''localhost'')]"
      using authWithWeb_Inr Pair by blast
    have "\<not> list_ex isOpen tr0" using getAvailablePort_trace[of e] g
      by (auto simp: isOpen_def)
    then have fb: "\<And>ys. firstBefore isHttpListen isOpen (tr1 @ ys)"
      unfolding t by (simp add: firstBefore_append isHttpListen_def)
    have "\<exists>ys. trace (interactiveFlow e st m cl tr) = tr @ tr1 @ ys"
      using Pair Inr
      by (simp add: interactiveFlow_def Let_def
          split: option.split sum.split prod.split promise.split)
    then show ?thesis using fb by auto
  qed
qed

text \<open>
  Claim C6, as amended. In every run of \<open>getAuthenticatedClient\<close> the call
  \<open>server.listen(port, host)\<close> on the callback server comes before the call
  \<open>open(authUrl)\<close>: no browser is opened for a server that was not asked to listen.
\<close>

theorem listen_called_before_open:
  "firstBefore isHttpListen isOpen (trace (getAuthenticatedClient e st m))"
proof (cases "cachedClient m")
  case (Some c)
  then show ?thesis by (simp add: getAuthenticatedClient_def)
next
  case None
  obtain x st' cl tr where l: "loadCachedCredentials st (scopes m) newOAuth2 = (x, st', cl, tr)"
    by (cases "loadCachedCredentials st (scopes m) newOAuth2") auto
  have no: "\<not> list_ex isOpen tr" by (rule loadCachedCredentials_trace[OF l])
  show ?thesis
  proof (cases x)
    case (Inl err)
    then show ?thesis using None l no by (simp add: getAuthenticatedClient_def firstBefore_none)
  next
    case (Inr b)
    show ?thesis
    proof (cases b)
      case True
      then show ?thesis using None l no Inr
        by (simp add: getAuthenticatedClient_def firstBefore_none)
    next
      case False
      obtain rest where "trace (interactiveFlow e st' m cl tr) = tr @ rest"
        and "firstBefore isHttpListen isOpen rest"
        using interactiveFlow_trace by blast
      then show ?thesis using None l no Inr False
        by (simp add: getAuthenticatedClient_def firstBefore_append)
    qed
  qed
qed

theorem listen_called_before_open_witness:
  "firstBefore isHttpListen isOpen (trace (getAuthenticatedClient timeoutEnv Map.empty demoManager))
   \<and> list_ex isOpen (trace (getAuthenticatedClient timeoutEnv Map.empty demoManager))"
proof -
  have h3: "authWithWeb timeoutEnv (scopes demoManager) newOAuth2
      = (Inr (demoLogin (scopes demoManager) newOAuth2),
         [NetListen 0, NetClose, HttpListen 40000 ''localhost''])"
    unfolding timeoutEnv_def by (rule demo_authWithWeb)
  have h4: "whileOpen timeoutEnv (loginCompletePromise (demoLogin (scopes demoManager) newOAuth2))
      (duringOpen timeoutEnv) = demoFlow newOAuth2"
    unfolding demoLogin_flow timeoutEnv_def by (rule demo_no_early)
  have p: "loginComplete (demoFlow newOAuth2) = Pending" by (simp add: demoFlow_def)
  have r: "race timeoutEnv ((demoFlow newOAuth2)\<lparr>effects := []\<rparr>) (events timeoutEnv)
      = (Some (Inl timeoutError), demoBound newOAuth2)"
    by (simp add: timeoutEnv_def demoEnv_def demoFlow_def demoBound_def onEvent_def)
  have "list_ex isOpen (trace (getAuthenticatedClient timeoutEnv Map.empty demoManager))"
    unfolding entry_to_interactive[OF demo_no_cache demo_load_empty]
      interactive_rejected[OF h3 h4 p r]
    by (simp add: isOpen_def)
  then show ?thesis
    using listen_called_before_open[of timeoutEnv Map.empty demoManager] by simp
qed

text \<open>
  The claim as it stands asks for a server that is bound and accepts connections when
  the browser is opened. \<open>authWithWeb\<close> calls \<open>listen\<close> and returns without waiting for the
  \<open>listening\<close> event, and \<open>getAuthenticatedClient\<close> opens the browser whatever becomes of
  the bind: with a port that is taken, the browser is opened and the server never
  listens.
\<close>

theorem bound_before_open_counterexample:
  "\<not> firstBefore isHttpListening isOpen (trace (getAuthenticatedClient bindFailEnv Map.empty demoManager))
   \<and> list_ex isOpen (trace (getAuthenticatedClient bindFailEnv Map.empty demoManager))
   \<and> \<not> list_ex isHttpListening (trace (getAuthenticatedClient bindFailEnv Map.empty demoManager))
   \<and> result (getAuthenticatedClient bindFailEnv Map.empty demoManager)
       = Some (Inl (Error ''OAuth callback server error: Error: listen EADDRINUSE: address already in use''))"
proof -
  have p: "getAvailablePort bindFailEnv = (Inr 8080, [])"
    by (simp add: bindFailEnv_def demoEnv_def getAvailablePort_def parseInt_def isWhiteSpace_def
        isDigit_def digitsValue_def digitValue_def invalidPort_def toNumber_small)
  have "\<exists>w. authWithWeb bindFailEnv (scopes demoManager) newOAuth2
        = (Inr w, [HttpListen 8080 ''localhost''])
      \<and> loginCompletePromise w =
         \<lparr>host = ''localhost'', port = 8080,
          csrfToken = toHex (randomBytes bindFailEnv 32), loginComplete = Pending, server = Starting,
          oAuth2Client = newOAuth2, effects = []\<rparr>"
    unfolding authWithWeb_def p
    by (simp add: Let_def bindFailEnv_def demoEnv_def orElse_def)
  then obtain w where a: "authWithWeb bindFailEnv (scopes demoManager) newOAuth2
      = (Inr w, [HttpListen 8080 ''localhost''])"
    and f: "loginCompletePromise w =
         \<lparr>host = ''localhost'', port = 8080,
          csrfToken = toHex (randomBytes bindFailEnv 32), loginComplete = Pending, server = Starting,
          oAuth2Client = newOAuth2, effects = []\<rparr>"
    by blast
  have o: "whileOpen bindFailEnv (loginCompletePromise w) (duringOpen bindFailEnv)
      = loginCompletePromise w"
    by (simp add: bindFailEnv_def demoEnv_def)
  have q: "loginComplete (loginCompletePromise w) = Pending" by (simp add: f)
  have r: "race bindFailEnv ((loginCompletePromise w)\<lparr>effects := []\<rparr>) (events bindFailEnv)
      = (Some (Inl (Error ''OAuth callback server error: Error: listen EADDRINUSE: address already in use'')),
         (loginCompletePromise w)\<lparr>loginComplete := Rejected (Error ''OAuth callback server error: Error: listen EADDRINUSE: address already in use'')\<rparr>)"
    unfolding f by (simp add: bindFailEnv_def demoEnv_def onEvent_def reject_pending settled_def)
  have run: "getAuthenticatedClient bindFailEnv Map.empty demoManager =
       \<lparr>result = Some (Inl (Error ''OAuth callback server error: Error: listen EADDRINUSE: address already in use'')),
        unhandled = None, manager = demoManager, stored = Map.empty,
        trace = [StorageGet MAIN_ACCOUNT_KEY, HttpListen 8080 ''localhost'', Open (authUrl w),
                 SetTimeout authTimeout]\<rparr>"
    unfolding entry_to_interactive[OF demo_no_cache demo_load_empty]
      interactive_rejected[OF a o q r]
    by (simp add: f)
  show ?thesis unfolding run
    by (simp add: isOpen_def isHttpListening_def)
qed

subsection \<open>Persisted credentials that lack a required scope\<close>

text \<open>A login promise resolves only in the handler's success branch, on a request that
  carries the token of the flow, and the handler installs the tokens of that request.\<close>

lemma handleCallback_resolved:
  assumes "loginComplete fl = Pending"
    and "loginComplete (handleCallback e fl reqUrl) = Resolved"
  shows "\<exists>u qs at ex. reqUrl = Some u
     \<and> searchParams e u (''http://'' @ host fl @ '':'' @ showInt (port fl)) = Inr qs
     \<and> map_of qs ''state'' = Some (csrfToken fl)
     \<and> map_of qs ''access_token'' = Some at \<and> map_of qs ''expiry_date'' = Some ex
     \<and> oAuth2Client (handleCallback e fl reqUrl)
         = (oAuth2Client fl)\<lparr>credentials := callbackTokens qs at ex\<rparr>"
proof (cases reqUrl)
  case None
  then show ?thesis using assms by (simp add: handleCallback_def reject_pending)
next
  case (Some u)
  show ?thesis
  proof (cases "searchParams e u (''http://'' @ host fl @ '':'' @ showInt (port fl))")
    case (Inl err)
    then show ?thesis using assms Some
      by (simp add: handleCallback_def reject_pending split: if_splits)
  next
    case (Inr qs)
    show ?thesis
    proof (cases "map_of qs ''access_token''")
      case None
      then show ?thesis using assms Some Inr
        by (simp add: handleCallback_def reject_pending split: if_splits)
    next
      case at: (Some at)
      show ?thesis
      proof (cases "map_of qs ''expiry_date''")
        case None
        then show ?thesis using assms Some Inr at
          by (simp add: handleCallback_def reject_pending split: if_splits)
      next
        case ex: (Some ex)
        show ?thesis using assms Some Inr at ex
          by (simp add: handleCallback_def reject_pending resolve_pending split: if_splits)
      qed
    qed
  qed
qed

lemma onEvent_resolved:
  assumes "loginComplete fl = Pending"
    and "loginComplete (onEvent e fl ev) = Resolved"
  shows "\<exists>u qs at ex. ev = Request (Some u)
     \<and> searchParams e u (''http://'' @ host fl @ '':'' @ showInt (port fl)) = Inr qs
     \<and> map_of qs ''state'' = Some (csrfToken fl)
     \<and> map_of qs ''access_token'' = Some at \<and> map_of qs ''expiry_date'' = Some ex
     \<and> oAuth2Client (onEvent e fl ev) = (oAuth2Client fl)\<lparr>credentials := callbackTokens qs at ex\<rparr>
     \<and> server (onEvent e fl ev) = Closed"
proof (cases ev)
  case (Request reqUrl)
  have acc: "server fl = Accepting" using assms Request
    by (auto simp: onEvent_def split: if_splits)
  then have eq: "onEvent e fl ev = requestListener e fl reqUrl" using Request
    by (simp add: onEvent_def)
  have "loginComplete (handleCallback e fl reqUrl) = Resolved"
    using assms(2) unfolding eq by (simp add: requestListener_def Let_def)
  from handleCallback_resolved[OF assms(1) this] obtain u qs at ex where
    "reqUrl = Some u"
    "searchParams e u (''http://'' @ host fl @ '':'' @ showInt (port fl)) = Inr qs"
    "map_of qs ''state'' = Some (csrfToken fl)"
    "map_of qs ''access_token'' = Some at" "map_of qs ''expiry_date'' = Some ex"
    "oAuth2Client (handleCallback e fl reqUrl) = (oAuth2Client fl)\<lparr>credentials := callbackTokens qs at ex\<rparr>"
    by blast
  moreover have "oAuth2Client (onEvent e fl ev) = oAuth2Client (handleCallback e fl reqUrl)"
    "server (onEvent e fl ev) = Closed"
    unfolding eq by (simp_all add: requestListener_def Let_def)
  ultimately show ?thesis using Request by auto
qed (use assms in \<open>auto simp: onEvent_def reject_pending split: if_splits\<close>)

lemma race_resolved:
  assumes "loginComplete fl = Pending" and "race e fl evs = (Some (Inr x), fl')"
  shows "\<exists>u qs at ex. Request (Some u) \<in> set evs
     \<and> searchParams e u (''http://'' @ host fl @ '':'' @ showInt (port fl)) = Inr qs
     \<and> map_of qs ''state'' = Some (csrfToken fl)
     \<and> map_of qs ''access_token'' = Some at \<and> map_of qs ''expiry_date'' = Some ex
     \<and> oAuth2Client fl' = (oAuth2Client fl)\<lparr>credentials := callbackTokens qs at ex\<rparr>"
  using assms
proof (induction evs arbitrary: fl)
  case Nil
  then show ?case by (simp add: settled_def)
next
  case (Cons ev rest)
  have nt: "ev \<noteq> TimerFired" using Cons.prems by auto
  have r: "race e (onEvent e fl ev) rest = (Some (Inr x), fl')" using Cons.prems nt by simp
  show ?case
  proof (cases "loginComplete (onEvent e fl ev)")
    case Pending
    from Cons.IH[OF Pending r] onEvent_pending[OF Pending] onEvent_closure[of e fl ev]
    show ?thesis by auto
  next
    case Resolved
    have "race e (onEvent e fl ev) rest = (settled (loginComplete (onEvent e fl ev)), onEvent e fl ev)"
      by (rule race_settled) (simp add: Resolved)
    with r have "fl' = onEvent e fl ev" by simp
    then show ?thesis using onEvent_resolved[OF Cons.prems(1) Resolved] by auto
  next
    case (Rejected err)
    have "race e (onEvent e fl ev) rest = (settled (loginComplete (onEvent e fl ev)), onEvent e fl ev)"
      by (rule race_settled) (simp add: Rejected)
    with r show ?thesis by (simp add: Rejected settled_def)
  qed
qed

text \<open>While \<open>open\<close> is awaited: nothing is handled after a rejection, and after the handler
  has closed the server no request reaches it.\<close>

lemma whileOpen_rejected: "loginComplete fl = Rejected err \<Longrightarrow> whileOpen e fl evs = fl"
  by (cases evs) simp_all

lemma whileOpen_append:
  "whileOpen e fl (xs @ ys) = whileOpen e (whileOpen e fl xs) ys"
proof (induction xs arbitrary: fl)
  case Nil
  then show ?case by simp
next
  case (Cons ev rest)
  then show ?case by (cases "loginComplete fl") (simp_all add: whileOpen_rejected)
qed

lemma onEvent_closed:
  "server fl = Closed \<Longrightarrow>
     oAuth2Client (onEvent e fl ev) = oAuth2Client fl \<and> server (onEvent e fl ev) = Closed"
  by (cases ev) (simp_all add: onEvent_def)

lemma whileOpen_closed:
  "server fl = Closed \<Longrightarrow> loginComplete fl = Resolved \<Longrightarrow>
     oAuth2Client (whileOpen e fl evs) = oAuth2Client fl
     \<and> loginComplete (whileOpen e fl evs) = Resolved"
proof (induction evs arbitrary: fl)
  case Nil
  then show ?case by simp
next
  case (Cons ev rest)
  have k: "loginComplete (onEvent e fl ev) = Resolved" using Cons.prems(2) by (simp add: onEvent_keeps)
  note c = onEvent_closed[OF Cons.prems(1), of e ev]
  have "whileOpen e fl (ev # rest) = whileOpen e (onEvent e fl ev) rest"
    using Cons.prems(2) by simp
  then show ?case using Cons.IH[of "onEvent e fl ev"] k c by simp
qed

lemma whileOpen_resolved:
  assumes "loginComplete fl = Pending" and "loginComplete (whileOpen e fl evs) = Resolved"
  shows "\<exists>u qs at ex. Request (Some u) \<in> set evs
     \<and> searchParams e u (''http://'' @ host fl @ '':'' @ showInt (port fl)) = Inr qs
     \<and> map_of qs ''state'' = Some (csrfToken fl)
     \<and> map_of qs ''access_token'' = Some at \<and> map_of qs ''expiry_date'' = Some ex
     \<and> oAuth2Client (whileOpen e fl evs) = (oAuth2Client fl)\<lparr>credentials := callbackTokens qs at ex\<rparr>"
  using assms
proof (induction evs arbitrary: fl)
  case Nil
  then show ?case by simp
next
  case (Cons ev rest)
  have w: "whileOpen e fl (ev # rest) = whileOpen e (onEvent e fl ev) rest"
    using Cons.prems(1) by simp
  have r: "loginComplete (whileOpen e (onEvent e fl ev) rest) = Resolved"
    using Cons.prems(2) unfolding w .
  show ?case
  proof (cases "loginComplete (onEvent e fl ev)")
    case Pending
    from Cons.IH[OF Pending r] onEvent_pending[OF Pending] onEvent_closure[of e fl ev]
    show ?thesis unfolding w by auto
  next
    case Resolved
    note step = onEvent_resolved[OF Cons.prems(1) Resolved]
    then have cl: "server (onEvent e fl ev) = Closed" by blast
    from whileOpen_closed[OF cl Resolved, of e rest] step
    show ?thesis unfolding w by auto
  next
    case (Rejected err)
    then show ?thesis using r by (simp add: whileOpen_rejected)
  qed
qed

text \<open>A client returned by the interactive flow is the client shell the flow was started
  on, with the tokens of a callback request of this flow that carried its token.\<close>

lemma interactiveFlow_tokens:
  assumes "result (interactiveFlow e st m cl tr) = Some (Inr c)"
  shows "\<exists>u qs at ex p. Request (Some u) \<in> set (duringOpen e @ events e)
     \<and> fst (getAvailablePort e) = Inr p
     \<and> searchParams e u (''http://'' @ orElse (OAUTH_CALLBACK_HOST e) ''localhost'' @ '':'' @ showInt p) = Inr qs
     \<and> map_of qs ''state'' = Some (toHex (randomBytes e 32))
     \<and> map_of qs ''access_token'' = Some at \<and> map_of qs ''expiry_date'' = Some ex
     \<and> c = cl\<lparr>credentials := callbackTokens qs at ex\<rparr>"
proof (cases "authWithWeb e (scopes m) cl")
  case (Pair x tr1)
  show ?thesis
  proof (cases x)
    case (Inl err)
    then show ?thesis using assms Pair by (simp add: interactiveFlow_def)
  next
    case (Inr w)
    let ?fl0 = "loginCompletePromise w"
    let ?op = "whileOpen e ?fl0 (duringOpen e)"
    from authWithWeb_Inr Pair Inr obtain p tr0 where g: "getAvailablePort e = (Inr p, tr0)"
      and f0: "?fl0 = \<lparr>host = orElse (OAUTH_CALLBACK_HOST e) ''localhost'', port = p,
          csrfToken = toHex (randomBytes e 32), loginComplete = Pending, server = Starting,
          oAuth2Client = cl, effects = []\<rparr>"
      by blast
    have pend: "loginComplete ?fl0 = Pending" and h0: "host ?fl0 = orElse (OAUTH_CALLBACK_HOST e) ''localhost''"
      and p0: "port ?fl0 = p" and t0: "csrfToken ?fl0 = toHex (randomBytes e 32)"
      and c0: "oAuth2Client ?fl0 = cl"
      by (simp_all add: f0)
    have gp: "fst (getAvailablePort e) = Inr p" by (simp add: g)
    obtain r fl where rc: "race e (?op\<lparr>effects := []\<rparr>) (events e) = (r, fl)"
      by (cases "race e (?op\<lparr>effects := []\<rparr>) (events e)")
    show ?thesis
    proof (cases "loginComplete ?op")
      case (Rejected err)
      then show ?thesis using assms Pair Inr by (simp add: interactiveFlow_def Let_def)
    next
      case Resolved
      have "race e (?op\<lparr>effects := []\<rparr>) (events e)
          = (settled (loginComplete (?op\<lparr>effects := []\<rparr>)), ?op\<lparr>effects := []\<rparr>)"
        by (rule race_settled) (simp add: Resolved)
      then have "c = oAuth2Client ?op"
        using assms Pair Inr Resolved
        by (auto simp: interactiveFlow_def Let_def settled_def split: sum.splits)
      with whileOpen_resolved[OF pend Resolved] h0 p0 t0 c0 gp show ?thesis
        by auto
    next
      case Pending
      have "r = Some (Inr ()) \<and> c = oAuth2Client fl"
        using assms Pair Inr rc Pending
        by (auto simp: interactiveFlow_def Let_def split: option.splits sum.splits)
      then have rc': "race e (?op\<lparr>effects := []\<rparr>) (events e) = (Some (Inr ()), fl)"
        and cfl: "c = oAuth2Client fl" using rc by simp_all
      have pe: "loginComplete (?op\<lparr>effects := []\<rparr>) = Pending" by (simp add: Pending)
      from whileOpen_pending[OF Pending] h0 p0 t0 c0
      have "host ?op = orElse (OAUTH_CALLBACK_HOST e) ''localhost''" "port ?op = p"
        "csrfToken ?op = toHex (randomBytes e 32)" "oAuth2Client ?op = cl"
        by simp_all
      with race_resolved[OF pe rc'] cfl gp show ?thesis by auto
    qed
  qed
qed

lemma missingScopes_nonempty:
  "missingScopes required g \<noteq> [] \<longleftrightarrow> \<not> set required \<subseteq> set (savedScopes g)"
  by (auto simp: missingScopes_def filter_empty_conv)

text \<open>Stored credentials with a missing scope: the entry is deleted and the interactive
  flow starts on the fresh client shell.\<close>

lemma missing_scope_reauth:
  assumes "cachedClient m = None"
    and "loadCredentials st = Inr (Some g)"
    and "\<not> set (scopes m) \<subseteq> set (savedScopes g)"
  shows "getAuthenticatedClient e st m =
     interactiveFlow e (st(MAIN_ACCOUNT_KEY := None)) m newOAuth2
       [StorageGet MAIN_ACCOUNT_KEY, StorageDelete MAIN_ACCOUNT_KEY]"
proof -
  have ex: "st MAIN_ACCOUNT_KEY \<noteq> None" using assms(2)
    by (auto simp: loadCredentials_def storage_getCredentials_def split: option.splits)
  have cl: "clearCredentials st = Inr (st(MAIN_ACCOUNT_KEY := None))" using ex
    by (auto simp: clearCredentials_def storage_deleteCredentials_def)
  have ms: "length (missingScopes (scopes m) g) > 0"
    using assms(3) missingScopes_nonempty[of "scopes m" g] by simp
  have "loadCachedCredentials st (scopes m) newOAuth2 =
      (Inr False, st(MAIN_ACCOUNT_KEY := None), newOAuth2,
       [StorageGet MAIN_ACCOUNT_KEY, StorageDelete MAIN_ACCOUNT_KEY])"
    using assms(2) cl ms by (simp add: loadCachedCredentials_def)
  then show ?thesis by (rule entry_to_interactive[OF assms(1)])
qed

text \<open>
  Claim C2. When no client is cached and the credential store holds credentials whose
  scopes do not cover every required scope, \<open>getAuthenticatedClient\<close> reads the store,
  deletes the entry and runs the interactive flow on a fresh client shell, with the entry
  gone from the store. The delete comes before any opening of the browser, and a client
  that is returned is the fresh shell with the tokens of a callback request of this very
  flow, one that carried the token of the flow: the stored credentials are not installed.
\<close>

theorem partial_scope_deleted_then_interactive:
  assumes "cachedClient m = None"
    and "loadCredentials st = Inr (Some g)"
    and "\<not> set (scopes m) \<subseteq> set (savedScopes g)"
  shows "getAuthenticatedClient e st m =
           interactiveFlow e (st(MAIN_ACCOUNT_KEY := None)) m newOAuth2
             [StorageGet MAIN_ACCOUNT_KEY, StorageDelete MAIN_ACCOUNT_KEY]
         \<and> (\<exists>rest. trace (getAuthenticatedClient e st m)
               = StorageGet MAIN_ACCOUNT_KEY # StorageDelete MAIN_ACCOUNT_KEY # rest)
         \<and> firstBefore isStorageDelete isOpen (trace (getAuthenticatedClient e st m))
         \<and> credentials newOAuth2 = noCredentials
         \<and> (\<forall>c. result (getAuthenticatedClient e st m) = Some (Inr c) \<longrightarrow>
               (\<exists>u qs at ex p. Request (Some u) \<in> set (duringOpen e @ events e)
                  \<and> fst (getAvailablePort e) = Inr p
                  \<and> searchParams e u (''http://'' @ orElse (OAUTH_CALLBACK_HOST e) ''localhost''
                        @ '':'' @ showInt p) = Inr qs
                  \<and> map_of qs ''state'' = Some (toHex (randomBytes e 32))
                  \<and> map_of qs ''access_token'' = Some at \<and> map_of qs ''expiry_date'' = Some ex
                  \<and> c = newOAuth2\<lparr>credentials := callbackTokens qs at ex\<rparr>))"
proof -
  note eq = missing_scope_reauth[OF assms, of e]
  let ?st = "st(MAIN_ACCOUNT_KEY := None)"
  let ?tr = "[StorageGet MAIN_ACCOUNT_KEY, StorageDelete MAIN_ACCOUNT_KEY]"
  obtain rest where t: "trace (interactiveFlow e ?st m newOAuth2 ?tr) = ?tr @ rest"
    using interactiveFlow_trace[of e ?st m newOAuth2 ?tr] by blast
  have a: "\<exists>rest. trace (getAuthenticatedClient e st m)
      = StorageGet MAIN_ACCOUNT_KEY # StorageDelete MAIN_ACCOUNT_KEY # rest"
    unfolding eq t by simp
  have b: "firstBefore isStorageDelete isOpen (trace (getAuthenticatedClient e st m))"
    unfolding eq t by (simp add: isStorageDelete_def isOpen_def)
  have c: "credentials newOAuth2 = noCredentials" by (simp add: newOAuth2_def)
  have d: "\<forall>c. result (getAuthenticatedClient e st m) = Some (Inr c) \<longrightarrow>
               (\<exists>u qs at ex p. Request (Some u) \<in> set (duringOpen e @ events e)
                  \<and> fst (getAvailablePort e) = Inr p
                  \<and> searchParams e u (''http://'' @ orElse (OAUTH_CALLBACK_HOST e) ''localhost''
                        @ '':'' @ showInt p) = Inr qs
                  \<and> map_of qs ''state'' = Some (toHex (randomBytes e 32))
                  \<and> map_of qs ''access_token'' = Some at \<and> map_of qs ''expiry_date'' = Some ex
                  \<and> c = newOAuth2\<lparr>credentials := callbackTokens qs at ex\<rparr>)"
    unfolding eq by (intro allI impI) (rule interactiveFlow_tokens)
  from eq a b c d show ?thesis by blast
qed

subsection \<open>A token persisted without a scope\<close>

lemma onEvent_success:
  assumes "server fl = Accepting" and "loginComplete fl = Pending"
    and "startsWith u ''/oauth2callback''"
    and "searchParams e u (''http://'' @ host fl @ '':'' @ showInt (port fl)) = Inr qs"
    and "map_of qs ''state'' = Some (csrfToken fl)"
    and "\<not> truthy (map_of qs ''error'')"
    and "map_of qs ''access_token'' = Some at" and "at \<noteq> []"
    and "map_of qs ''expiry_date'' = Some ex" and "ex \<noteq> []"
  shows "loginComplete (onEvent e fl (Request (Some u))) = Resolved
     \<and> oAuth2Client (onEvent e fl (Request (Some u)))
         = (oAuth2Client fl)\<lparr>credentials := callbackTokens qs at ex\<rparr>
     \<and> server (onEvent e fl (Request (Some u))) = Closed"
proof -
  have ne: "u \<noteq> []" using assms(3) by (auto simp: startsWith_def)
  show ?thesis using assms ne
    by (simp add: onEvent_def requestListener_def handleCallback_def Let_def resolve_pending)
qed

lemma interactive_resolved:
  assumes "authWithWeb e (scopes m) cl = (Inr w, tr1)"
    and "whileOpen e (loginCompletePromise w) (duringOpen e) = opened"
    and "loginComplete opened = Pending \<or> loginComplete opened = Resolved"
    and "race e (opened\<lparr>effects := []\<rparr>) (events e) = (Some (Inr x), fl)"
    and "saveCredentials (dateNow e) st (credentials (oAuth2Client fl)) = Inr st2"
  shows "result (interactiveFlow e st m cl tr) = Some (Inr (oAuth2Client fl))
     \<and> unhandled (interactiveFlow e st m cl tr) = None
     \<and> stored (interactiveFlow e st m cl tr) = st2
     \<and> manager (interactiveFlow e st m cl tr) = m\<lparr>client := Some (oAuth2Client fl)\<rparr>"
  using assms by (auto simp: interactiveFlow_def Let_def)

lemma save_callbackTokens:
  assumes "at \<noteq> []"
  shows "saveCredentials now st (callbackTokens qs at ex)
     = Inr (st(MAIN_ACCOUNT_KEY \<mapsto> toMcpCredentials now (callbackTokens qs at ex)))"
  using assms
  by (simp add: saveCredentials_def storage_setCredentials_def validateCredentials_def
      toMcpCredentials_def callbackTokens_def MAIN_ACCOUNT_KEY_def orUndefined_def truthy_def
      orElse_def split: option.split)

lemma load_scopeless:
  assumes "st MAIN_ACCOUNT_KEY = Some c" and "tokenScope (token c) = None"
  shows "\<exists>g. loadCredentials st = Inr (Some g) \<and> savedScopes g = []"
  using assms
  by (simp add: loadCredentials_def storage_getCredentials_def Let_def savedScopes_def
      orUndefined_def truthy_def)

text \<open>A successful callback, received while \<open>open\<close> is awaited or during the race: the
  flow returns the client with the tokens of the callback and persists them.\<close>

lemma success_run:
  assumes "authWithWeb e (scopes m) cl = (Inr w, tr1)"
    and "(duringOpen e = pre @ Request (Some u) # post
            \<and> whileOpen e (loginCompletePromise w) pre = fl \<and> loginComplete fl = Pending)
         \<or> (events e = pre @ Request (Some u) # post
            \<and> race e ((whileOpen e (loginCompletePromise w) (duringOpen e))\<lparr>effects := []\<rparr>) pre
                = (None, fl))"
    and "server fl = Accepting"
    and "startsWith u ''/oauth2callback''"
    and "searchParams e u (''http://'' @ host fl @ '':'' @ showInt (port fl)) = Inr qs"
    and "map_of qs ''state'' = Some (toHex (randomBytes e 32))"
    and "\<not> truthy (map_of qs ''error'')"
    and "map_of qs ''access_token'' = Some at" and "at \<noteq> []"
    and "map_of qs ''expiry_date'' = Some ex" and "ex \<noteq> []"
  shows "result (interactiveFlow e st m cl tr) = Some (Inr (cl\<lparr>credentials := callbackTokens qs at ex\<rparr>))
     \<and> unhandled (interactiveFlow e st m cl tr) = None
     \<and> stored (interactiveFlow e st m cl tr)
         = st(MAIN_ACCOUNT_KEY \<mapsto> toMcpCredentials (dateNow e) (callbackTokens qs at ex))"
proof -
  let ?fl0 = "loginCompletePromise w"
  let ?op = "whileOpen e ?fl0 (duringOpen e)"
  let ?fl2 = "onEvent e fl (Request (Some u))"
  let ?tok = "callbackTokens qs at ex"
  from authWithWeb_Inr[OF assms(1)]
  have t0: "csrfToken ?fl0 = toHex (randomBytes e 32)" and c0: "oAuth2Client ?fl0 = cl"
    by auto
  have "\<exists>fl3 x. (loginComplete ?op = Pending \<or> loginComplete ?op = Resolved)
      \<and> race e (?op\<lparr>effects := []\<rparr>) (events e) = (Some (Inr x), fl3)
      \<and> oAuth2Client fl3 = cl\<lparr>credentials := ?tok\<rparr>"
    using assms(2)
  proof
    assume early: "duringOpen e = pre @ Request (Some u) # post
            \<and> whileOpen e ?fl0 pre = fl \<and> loginComplete fl = Pending"
    then have pend: "loginComplete fl = Pending" and wf: "whileOpen e ?fl0 pre = fl"
      and du: "duringOpen e = pre @ Request (Some u) # post" by simp_all
    have "loginComplete (whileOpen e ?fl0 pre) = Pending" using pend wf by simp
    from whileOpen_pending[OF this] t0 c0 wf
    have tokfl: "csrfToken fl = toHex (randomBytes e 32)" and cfl: "oAuth2Client fl = cl"
      by simp_all
    have st: "map_of qs ''state'' = Some (csrfToken fl)" using assms(6) tokfl by simp
    note step = onEvent_success[OF assms(3) pend assms(4) assms(5) st assms(7) assms(8) assms(9)
        assms(10) assms(11)]
    then have res: "loginComplete ?fl2 = Resolved" and clo: "server ?fl2 = Closed"
      and cl2: "oAuth2Client ?fl2 = cl\<lparr>credentials := ?tok\<rparr>"
      by (simp_all add: cfl)
    have "?op = whileOpen e fl (Request (Some u) # post)"
      unfolding du whileOpen_append wf ..
    also have "\<dots> = whileOpen e ?fl2 post" using pend by simp
    finally have op: "?op = whileOpen e ?fl2 post" .
    from whileOpen_closed[OF clo res, of e post]
    have r1: "loginComplete ?op = Resolved" and c1: "oAuth2Client ?op = cl\<lparr>credentials := ?tok\<rparr>"
      unfolding op by (simp_all add: cl2)
    have "race e (?op\<lparr>effects := []\<rparr>) (events e)
        = (settled (loginComplete (?op\<lparr>effects := []\<rparr>)), ?op\<lparr>effects := []\<rparr>)"
      by (rule race_settled) (simp add: r1)
    then have "race e (?op\<lparr>effects := []\<rparr>) (events e) = (Some (Inr ()), ?op\<lparr>effects := []\<rparr>)"
      by (simp add: r1 settled_def)
    moreover have "oAuth2Client (?op\<lparr>effects := []\<rparr>) = cl\<lparr>credentials := ?tok\<rparr>"
      by (simp add: c1)
    ultimately show ?thesis using r1 by blast
  next
    assume late: "events e = pre @ Request (Some u) # post
            \<and> race e (?op\<lparr>effects := []\<rparr>) pre = (None, fl)"
    then have ev: "events e = pre @ Request (Some u) # post"
      and rp: "race e (?op\<lparr>effects := []\<rparr>) pre = (None, fl)" by simp_all
    from open_race_untouched[OF assms(1) refl rp]
    have p1: "loginComplete ?op = Pending" and pend: "loginComplete fl = Pending"
      and tokfl: "csrfToken fl = toHex (randomBytes e 32)" and cfl: "oAuth2Client fl = cl"
      by simp_all
    have st: "map_of qs ''state'' = Some (csrfToken fl)" using assms(6) tokfl by simp
    note step = onEvent_success[OF assms(3) pend assms(4) assms(5) st assms(7) assms(8) assms(9)
        assms(10) assms(11)]
    have "race e (?op\<lparr>effects := []\<rparr>) (events e) = race e fl (Request (Some u) # post)"
      unfolding ev by (rule race_append[OF rp])
    also have "\<dots> = race e ?fl2 post"
      by (rule race_pending_step[OF pend]) simp
    also have "\<dots> = (settled (loginComplete ?fl2), ?fl2)"
      by (rule race_settled) (simp add: step)
    finally have "race e (?op\<lparr>effects := []\<rparr>) (events e) = (Some (Inr ()), ?fl2)"
      by (simp add: step settled_def)
    moreover have "oAuth2Client ?fl2 = cl\<lparr>credentials := ?tok\<rparr>" by (simp add: step cfl)
    ultimately show ?thesis using p1 by blast
  qed
  then obtain fl3 x where ok: "loginComplete ?op = Pending \<or> loginComplete ?op = Resolved"
    and r: "race e (?op\<lparr>effects := []\<rparr>) (events e) = (Some (Inr x), fl3)"
    and c3: "oAuth2Client fl3 = cl\<lparr>credentials := ?tok\<rparr>"
    by blast
  have cr: "credentials (oAuth2Client fl3) = ?tok" by (simp add: c3)
  have sv: "saveCredentials (dateNow e) st (credentials (oAuth2Client fl3))
      = Inr (st(MAIN_ACCOUNT_KEY \<mapsto> toMcpCredentials (dateNow e) ?tok))"
    unfolding cr by (rule save_callbackTokens[OF assms(9)])
  from interactive_resolved[OF assms(1) refl ok r sv, of tr] show ?thesis
    by (simp add: c3)
qed

text \<open>
  Claim C10. Let the manager require at least one scope and let an interactive flow
  succeed on a callback without a \<open>scope\<close> parameter, received while \<open>open\<close> is awaited or
  during the race. The tokens installed and the credentials persisted then have no scope.
  Any later call on a manager without a usable cached client and with the same required
  scopes reads the persisted credentials, finds every required scope missing, deletes the
  entry and runs the interactive flow on a fresh client shell: the persisted token is not
  installed, and a client returned by that call is the fresh shell with the tokens of a
  callback request of that later flow, one that carried its token.
\<close>

theorem scopeless_token_forces_reauth:
  assumes "cachedClient m = None"
    and "loadCachedCredentials st (scopes m) newOAuth2 = (Inr False, st', cl, tr)"
    and "authWithWeb e (scopes m) cl = (Inr w, tr1)"
    and "(duringOpen e = pre @ Request (Some u) # post
            \<and> whileOpen e (loginCompletePromise w) pre = fl \<and> loginComplete fl = Pending)
         \<or> (events e = pre @ Request (Some u) # post
            \<and> race e ((whileOpen e (loginCompletePromise w) (duringOpen e))\<lparr>effects := []\<rparr>) pre
                = (None, fl))"
    and "server fl = Accepting"
    and "startsWith u ''/oauth2callback''"
    and "searchParams e u (''http://'' @ host fl @ '':'' @ showInt (port fl)) = Inr qs"
    and "map_of qs ''state'' = Some (toHex (randomBytes e 32))"
    and "\<not> truthy (map_of qs ''error'')"
    and "map_of qs ''access_token'' = Some at" and "at \<noteq> []"
    and "map_of qs ''expiry_date'' = Some ex" and "ex \<noteq> []"
    and "map_of qs ''scope'' = None"
    and "scopes m \<noteq> []"
    and "cachedClient m2 = None" and "scopes m2 = scopes m"
  shows "result (getAuthenticatedClient e st m)
           = Some (Inr (newOAuth2\<lparr>credentials := callbackTokens qs at ex\<rparr>))
         \<and> scope (callbackTokens qs at ex) = None
         \<and> stored (getAuthenticatedClient e st m) MAIN_ACCOUNT_KEY
             = Some (toMcpCredentials (dateNow e) (callbackTokens qs at ex))
         \<and> tokenScope (token (toMcpCredentials (dateNow e) (callbackTokens qs at ex))) = None
         \<and> getAuthenticatedClient e2 (stored (getAuthenticatedClient e st m)) m2 =
             interactiveFlow e2 ((stored (getAuthenticatedClient e st m))(MAIN_ACCOUNT_KEY := None)) m2
               newOAuth2 [StorageGet MAIN_ACCOUNT_KEY, StorageDelete MAIN_ACCOUNT_KEY]
         \<and> (\<forall>c. result (getAuthenticatedClient e2 (stored (getAuthenticatedClient e st m)) m2) = Some (Inr c)
               \<longrightarrow> (\<exists>u' qs' at' ex' p'. Request (Some u') \<in> set (duringOpen e2 @ events e2)
                  \<and> fst (getAvailablePort e2) = Inr p'
                  \<and> searchParams e2 u' (''http://'' @ orElse (OAUTH_CALLBACK_HOST e2) ''localhost''
                        @ '':'' @ showInt p') = Inr qs'
                  \<and> map_of qs' ''state'' = Some (toHex (randomBytes e2 32))
                  \<and> map_of qs' ''access_token'' = Some at' \<and> map_of qs' ''expiry_date'' = Some ex'
                  \<and> c = newOAuth2\<lparr>credentials := callbackTokens qs' at' ex'\<rparr>))"
proof -
  let ?tok = "callbackTokens qs at ex"
  let ?r1 = "getAuthenticatedClient e st m"
  have clnew: "cl = newOAuth2" using loadCachedCredentials_False[OF assms(2)] by simp
  note run = success_run[OF assms(3) assms(4) assms(5) assms(6) assms(7) assms(8) assms(9)
      assms(10) assms(11) assms(12) assms(13), of st' tr]
  have a: "result ?r1 = Some (Inr (newOAuth2\<lparr>credentials := ?tok\<rparr>))"
    unfolding entry_to_interactive[OF assms(1,2)] using run by (simp add: clnew)
  have s1: "stored ?r1 = st'(MAIN_ACCOUNT_KEY \<mapsto> toMcpCredentials (dateNow e) ?tok)"
    unfolding entry_to_interactive[OF assms(1,2)] using run by simp
  have b: "scope ?tok = None"
    using assms(14) by (simp add: callbackTokens_def orUndefined_def truthy_def)
  have c: "stored ?r1 MAIN_ACCOUNT_KEY = Some (toMcpCredentials (dateNow e) ?tok)"
    unfolding s1 by simp
  have d: "tokenScope (token (toMcpCredentials (dateNow e) ?tok)) = None"
    using b by (simp add: toMcpCredentials_def orUndefined_def truthy_def)
  from load_scopeless[of "stored ?r1" "toMcpCredentials (dateNow e) ?tok", OF c d] obtain g where
    g: "loadCredentials (stored ?r1) = Inr (Some g)" and sg: "savedScopes g = []" by blast
  have ms: "\<not> set (scopes m2) \<subseteq> set (savedScopes g)"
    using assms(15) assms(17) sg by simp
  note again = missing_scope_reauth[OF assms(16) g ms, of e2]
  have f: "\<forall>c. result (getAuthenticatedClient e2 (stored ?r1) m2) = Some (Inr c)
               \<longrightarrow> (\<exists>u' qs' at' ex' p'. Request (Some u') \<in> set (duringOpen e2 @ events e2)
                  \<and> fst (getAvailablePort e2) = Inr p'
                  \<and> searchParams e2 u' (''http://'' @ orElse (OAUTH_CALLBACK_HOST e2) ''localhost''
                        @ '':'' @ showInt p') = Inr qs'
                  \<and> map_of qs' ''state'' = Some (toHex (randomBytes e2 32))
                  \<and> map_of qs' ''access_token'' = Some at' \<and> map_of qs' ''expiry_date'' = Some ex'
                  \<and> c = newOAuth2\<lparr>credentials := callbackTokens qs' at' ex'\<rparr>)"
    unfolding again by (intro allI impI) (rule interactiveFlow_tokens)
  from a b c d again f show ?thesis by blast
qed

subsection \<open>Concrete runs with a successful callback\<close>

lemma noScopeEnv_authWithWeb:
  "authWithWeb noScopeEnv (scopes demoManager) newOAuth2
      = (Inr (demoLogin (scopes demoManager) newOAuth2),
         [NetListen 0, NetClose, HttpListen 40000 ''localhost''])"
  unfolding noScopeEnv_def by (rule demo_authWithWeb)

lemma noScopeEnv_position:
  "(duringOpen noScopeEnv = [Bound] @ Request (Some ''/oauth2callback?x'') # []
      \<and> whileOpen noScopeEnv (loginCompletePromise (demoLogin (scopes demoManager) newOAuth2)) [Bound]
          = demoBound newOAuth2
      \<and> loginComplete (demoBound newOAuth2) = Pending)
   \<or> (events noScopeEnv = [Bound] @ Request (Some ''/oauth2callback?x'') # []
      \<and> race noScopeEnv
           ((whileOpen noScopeEnv (loginCompletePromise (demoLogin (scopes demoManager) newOAuth2))
               (duringOpen noScopeEnv))\<lparr>effects := []\<rparr>) [Bound]
          = (None, demoBound newOAuth2))"
proof -
  have a: "events noScopeEnv = [Bound] @ Request (Some ''/oauth2callback?x'') # []"
    by (simp add: noScopeEnv_def demoEnv_def)
  have o: "whileOpen noScopeEnv (loginCompletePromise (demoLogin (scopes demoManager) newOAuth2))
      (duringOpen noScopeEnv) = demoFlow newOAuth2"
    unfolding demoLogin_flow noScopeEnv_def by (rule demo_no_early)
  have b: "race noScopeEnv
           ((whileOpen noScopeEnv (loginCompletePromise (demoLogin (scopes demoManager) newOAuth2))
               (duringOpen noScopeEnv))\<lparr>effects := []\<rparr>) [Bound]
          = (None, demoBound newOAuth2)"
    unfolding o demoFlow_effects by (rule demo_race_bound)
  from a b show ?thesis by blast
qed

lemma earlyNoScopeEnv_authWithWeb:
  "authWithWeb earlyNoScopeEnv (scopes demoManager) newOAuth2
      = (Inr (demoLogin (scopes demoManager) newOAuth2),
         [NetListen 0, NetClose, HttpListen 40000 ''localhost''])"
  by (simp add: authWithWeb_def getAvailablePort_def throwawayListener_def earlyNoScopeEnv_def
      demoEnv_def demoLogin_def demoUrl_def demoFlow_def demoToken_def orElse_def Let_def)

lemma earlyNoScopeEnv_position:
  "(duringOpen earlyNoScopeEnv = [Bound] @ Request (Some ''/oauth2callback?x'') # []
      \<and> whileOpen earlyNoScopeEnv (loginCompletePromise (demoLogin (scopes demoManager) newOAuth2)) [Bound]
          = demoBound newOAuth2
      \<and> loginComplete (demoBound newOAuth2) = Pending)
   \<or> (events earlyNoScopeEnv = [Bound] @ Request (Some ''/oauth2callback?x'') # []
      \<and> race earlyNoScopeEnv
           ((whileOpen earlyNoScopeEnv (loginCompletePromise (demoLogin (scopes demoManager) newOAuth2))
               (duringOpen earlyNoScopeEnv))\<lparr>effects := []\<rparr>) [Bound]
          = (None, demoBound newOAuth2))"
proof -
  have a: "duringOpen earlyNoScopeEnv = [Bound] @ Request (Some ''/oauth2callback?x'') # []"
    by (simp add: earlyNoScopeEnv_def demoEnv_def)
  have b: "whileOpen earlyNoScopeEnv (loginCompletePromise (demoLogin (scopes demoManager) newOAuth2)) [Bound]
          = demoBound newOAuth2"
  proof -
    have p: "loginComplete (demoFlow newOAuth2) = Pending" by (simp add: demoFlow_def)
    have "whileOpen earlyNoScopeEnv (demoFlow newOAuth2) [Bound]
        = onEvent earlyNoScopeEnv (demoFlow newOAuth2) Bound"
      using p by simp
    also have "\<dots> = demoBound newOAuth2"
      by (simp add: demoFlow_def demoBound_def onEvent_def)
    finally show ?thesis unfolding demoLogin_flow .
  qed
  have c: "loginComplete (demoBound newOAuth2) = Pending"
    by (simp add: demoBound_def demoFlow_def)
  from a b c show ?thesis by blast
qed

lemma demoBound_accepting: "server (demoBound newOAuth2) = Accepting"
  by (simp add: demoBound_def)

lemma demo_callback_path: "startsWith ''/oauth2callback?x'' ''/oauth2callback''"
  by (simp add: startsWith_def)

lemma noScopeEnv_params:
  "searchParams noScopeEnv ''/oauth2callback?x''
      (''http://'' @ host (demoBound newOAuth2) @ '':'' @ showInt (port (demoBound newOAuth2)))
      = Inr noScopeQuery"
  by (simp add: noScopeEnv_def demoEnv_def)

lemma earlyNoScopeEnv_params:
  "searchParams earlyNoScopeEnv ''/oauth2callback?x''
      (''http://'' @ host (demoBound newOAuth2) @ '':'' @ showInt (port (demoBound newOAuth2)))
      = Inr noScopeQuery"
  by (simp add: earlyNoScopeEnv_def demoEnv_def)

lemma noScopeEnv_state: "map_of noScopeQuery ''state'' = Some (toHex (randomBytes noScopeEnv 32))"
  by (simp add: noScopeQuery_def noScopeEnv_def demoEnv_def demoToken_def)

lemma earlyNoScopeEnv_state:
  "map_of noScopeQuery ''state'' = Some (toHex (randomBytes earlyNoScopeEnv 32))"
  by (simp add: noScopeQuery_def earlyNoScopeEnv_def demoEnv_def demoToken_def)

lemma noScopeQuery_fields:
  "\<not> truthy (map_of noScopeQuery ''error'')"
  "map_of noScopeQuery ''access_token'' = Some ''tok''"
  "map_of noScopeQuery ''expiry_date'' = Some ''1999''"
  "map_of noScopeQuery ''scope'' = None"
  by (simp_all add: noScopeQuery_def truthy_def)

lemma noScopeEnv_run:
  "result (interactiveFlow noScopeEnv st demoManager newOAuth2 tr)
     = Some (Inr (newOAuth2\<lparr>credentials := callbackTokens noScopeQuery ''tok'' ''1999''\<rparr>))"
proof -
  have n1: "''tok'' \<noteq> []" and n2: "''1999'' \<noteq> []" by simp_all
  from success_run[OF noScopeEnv_authWithWeb noScopeEnv_position demoBound_accepting
      demo_callback_path noScopeEnv_params noScopeEnv_state noScopeQuery_fields(1)
      noScopeQuery_fields(2) n1 noScopeQuery_fields(3) n2, of st tr]
  show ?thesis by (rule conjunct1)
qed

theorem partial_scope_deleted_then_interactive_witness:
  "cachedClient demoManager = None
   \<and> loadCredentials demoStore = Inr (Some demoGoogle)
   \<and> \<not> set (scopes demoManager) \<subseteq> set (savedScopes demoGoogle)
   \<and> getAuthenticatedClient noScopeEnv demoStore demoManager =
       interactiveFlow noScopeEnv Map.empty demoManager newOAuth2
         [StorageGet MAIN_ACCOUNT_KEY, StorageDelete MAIN_ACCOUNT_KEY]
   \<and> firstBefore isStorageDelete isOpen (trace (getAuthenticatedClient noScopeEnv demoStore demoManager))
   \<and> result (getAuthenticatedClient noScopeEnv demoStore demoManager)
       = Some (Inr (newOAuth2\<lparr>credentials := callbackTokens noScopeQuery ''tok'' ''1999''\<rparr>))
   \<and> (\<exists>u qs at ex p. Request (Some u) \<in> set (duringOpen noScopeEnv @ events noScopeEnv)
         \<and> fst (getAvailablePort noScopeEnv) = Inr p
         \<and> searchParams noScopeEnv u (''http://'' @ orElse (OAUTH_CALLBACK_HOST noScopeEnv) ''localhost''
               @ '':'' @ showInt p) = Inr qs
         \<and> map_of qs ''state'' = Some (toHex (randomBytes noScopeEnv 32))
         \<and> map_of qs ''access_token'' = Some at \<and> map_of qs ''expiry_date'' = Some ex
         \<and> newOAuth2\<lparr>credentials := callbackTokens noScopeQuery ''tok'' ''1999''\<rparr>
             = newOAuth2\<lparr>credentials := callbackTokens qs at ex\<rparr>)"
proof -
  have h2: "loadCredentials demoStore = Inr (Some demoGoogle)"
    by (simp add: loadCredentials_def storage_getCredentials_def demoStore_def demoStored_def
        demoGoogle_def orUndefined_def truthy_def truthyNum_def)
  have h3: "\<not> set (scopes demoManager) \<subseteq> set (savedScopes demoGoogle)"
    by (simp add: demoManager_def savedScopes_def demoGoogle_def)
  have s: "demoStore(MAIN_ACCOUNT_KEY := None) = Map.empty"
    by (simp add: demoStore_def)
  note inst = partial_scope_deleted_then_interactive[OF demo_no_cache h2 h3, of noScopeEnv]
  from inst have eq: "getAuthenticatedClient noScopeEnv demoStore demoManager =
       interactiveFlow noScopeEnv Map.empty demoManager newOAuth2
         [StorageGet MAIN_ACCOUNT_KEY, StorageDelete MAIN_ACCOUNT_KEY]"
    unfolding s by (rule conjunct1)
  from inst have fb: "firstBefore isStorageDelete isOpen
      (trace (getAuthenticatedClient noScopeEnv demoStore demoManager))"
    by blast
  have res: "result (getAuthenticatedClient noScopeEnv demoStore demoManager)
       = Some (Inr (newOAuth2\<lparr>credentials := callbackTokens noScopeQuery ''tok'' ''1999''\<rparr>))"
    unfolding eq by (rule noScopeEnv_run)
  from inst[THEN conjunct2, THEN conjunct2, THEN conjunct2, THEN conjunct2, THEN spec, THEN mp, OF res]
  have ex: "\<exists>u qs at ex p. Request (Some u) \<in> set (duringOpen noScopeEnv @ events noScopeEnv)
         \<and> fst (getAvailablePort noScopeEnv) = Inr p
         \<and> searchParams noScopeEnv u (''http://'' @ orElse (OAUTH_CALLBACK_HOST noScopeEnv) ''localhost''
               @ '':'' @ showInt p) = Inr qs
         \<and> map_of qs ''state'' = Some (toHex (randomBytes noScopeEnv 32))
         \<and> map_of qs ''access_token'' = Some at \<and> map_of qs ''expiry_date'' = Some ex
         \<and> newOAuth2\<lparr>credentials := callbackTokens noScopeQuery ''tok'' ''1999''\<rparr>
             = newOAuth2\<lparr>credentials := callbackTokens qs at ex\<rparr>" .
  from demo_no_cache h2 h3 eq fb res ex show ?thesis by blast
qed

theorem scopeless_token_forces_reauth_witness:
  "scopes demoManager \<noteq> []
   \<and> map_of noScopeQuery ''scope'' = None
   \<and> result (getAuthenticatedClient noScopeEnv Map.empty demoManager)
       = Some (Inr (newOAuth2\<lparr>credentials := callbackTokens noScopeQuery ''tok'' ''1999''\<rparr>))
   \<and> getAuthenticatedClient timeoutEnv (stored (getAuthenticatedClient noScopeEnv Map.empty demoManager))
        demoManager =
       interactiveFlow timeoutEnv
         ((stored (getAuthenticatedClient noScopeEnv Map.empty demoManager))(MAIN_ACCOUNT_KEY := None))
         demoManager newOAuth2 [StorageGet MAIN_ACCOUNT_KEY, StorageDelete MAIN_ACCOUNT_KEY]
   \<and> result (getAuthenticatedClient earlyNoScopeEnv Map.empty demoManager)
       = Some (Inr (newOAuth2\<lparr>credentials := callbackTokens noScopeQuery ''tok'' ''1999''\<rparr>))
   \<and> getAuthenticatedClient timeoutEnv (stored (getAuthenticatedClient earlyNoScopeEnv Map.empty demoManager))
        demoManager =
       interactiveFlow timeoutEnv
         ((stored (getAuthenticatedClient earlyNoScopeEnv Map.empty demoManager))(MAIN_ACCOUNT_KEY := None))
         demoManager newOAuth2 [StorageGet MAIN_ACCOUNT_KEY, StorageDelete MAIN_ACCOUNT_KEY]"
proof -
  have n1: "''tok'' \<noteq> []" and n2: "''1999'' \<noteq> []" by simp_all
  have h16: "scopes demoManager \<noteq> []" by (simp add: demoManager_def)
  have h18: "scopes demoManager = scopes demoManager" by simp
  note late = scopeless_token_forces_reauth[OF demo_no_cache demo_load_empty noScopeEnv_authWithWeb
      noScopeEnv_position demoBound_accepting demo_callback_path noScopeEnv_params noScopeEnv_state
      noScopeQuery_fields(1) noScopeQuery_fields(2) n1 noScopeQuery_fields(3) n2
      noScopeQuery_fields(4) h16 demo_no_cache h18, of timeoutEnv]
  note early = scopeless_token_forces_reauth[OF demo_no_cache demo_load_empty
      earlyNoScopeEnv_authWithWeb earlyNoScopeEnv_position demoBound_accepting demo_callback_path
      earlyNoScopeEnv_params earlyNoScopeEnv_state
      noScopeQuery_fields(1) noScopeQuery_fields(2) n1 noScopeQuery_fields(3) n2
      noScopeQuery_fields(4) h16 demo_no_cache h18, of timeoutEnv]
  from late have l1: "result (getAuthenticatedClient noScopeEnv Map.empty demoManager)
       = Some (Inr (newOAuth2\<lparr>credentials := callbackTokens noScopeQuery ''tok'' ''1999''\<rparr>))"
    by (rule conjunct1)
  from late have l2: "getAuthenticatedClient timeoutEnv
        (stored (getAuthenticatedClient noScopeEnv Map.empty demoManager)) demoManager =
       interactiveFlow timeoutEnv
         ((stored (getAuthenticatedClient noScopeEnv Map.empty demoManager))(MAIN_ACCOUNT_KEY := None))
         demoManager newOAuth2 [StorageGet MAIN_ACCOUNT_KEY, StorageDelete MAIN_ACCOUNT_KEY]"
    by blast
  from early have e1: "result (getAuthenticatedClient earlyNoScopeEnv Map.empty demoManager)
       = Some (Inr (newOAuth2\<lparr>credentials := callbackTokens noScopeQuery ''tok'' ''1999''\<rparr>))"
    by (rule conjunct1)
  from early have e2: "getAuthenticatedClient timeoutEnv
        (stored (getAuthenticatedClient earlyNoScopeEnv Map.empty demoManager)) demoManager =
       interactiveFlow timeoutEnv
         ((stored (getAuthenticatedClient earlyNoScopeEnv Map.empty demoManager))(MAIN_ACCOUNT_KEY := None))
         demoManager newOAuth2 [StorageGet MAIN_ACCOUNT_KEY, StorageDelete MAIN_ACCOUNT_KEY]"
    by blast
  from h16 noScopeQuery_fields(4) l1 l2 e1 e2 show ?thesis by blast
qed

section \<open>Properties of the hybrid credential store\<close>

lemma hybridOp_selected:
  "selected h = Some b \<Longrightarrow> hybridOp f p h op = h\<lparr>delegated := delegated h @ [(b, op)]\<rparr>"
  by (simp add: hybridOp_def initializeStorage_def)

lemma hybridOps_selected:
  "selected h = Some b \<Longrightarrow> hybridOps f p h ops = h\<lparr>delegated := delegated h @ map (Pair b) ops\<rparr>"
proof (induction ops arbitrary: h)
  case Nil
  then show ?case by (simp add: hybridOps_def)
next
  case (Cons op ops)
  have s: "selected (hybridOp f p h op) = Some b"
    using Cons.prems by (simp add: hybridOp_selected)
  have "hybridOps f p h (op # ops) = hybridOps f p (hybridOp f p h op) ops"
    by (simp add: hybridOps_def)
  also have "\<dots> = (hybridOp f p h op)\<lparr>delegated := delegated (hybridOp f p h op) @ map (Pair b) ops\<rparr>"
    by (rule Cons.IH[OF s])
  finally show ?case using Cons.prems by (simp add: hybridOp_selected)
qed

lemma hybridOp_first:
  "hybridOp f p newHybrid op =
     \<lparr>selected = Some (chosenBackend f p), probes = (if f then 0 else 1),
      delegated = [(chosenBackend f p, op)]\<rparr>"
  by (simp add: hybridOp_def initializeStorage_def newHybrid_def chosenBackend_def
      split: probe.split)

text \<open>
  Claim C8. Over any sequence of store operations on a new hybrid store the keychain is
  probed at most once. With the force-file override it is not probed at all and the file
  store is chosen; otherwise it is probed exactly once by the first operation, and the
  keychain is chosen exactly when that probe resolves true, the file store when it
  resolves false or throws. Every operation of the sequence is delegated to the backend
  chosen by the first one.
\<close>

theorem hybrid_backend_chosen_once:
  "probes (hybridOps f p newHybrid ops) \<le> 1
   \<and> (ops \<noteq> [] \<longrightarrow>
        hybridOps f p newHybrid ops =
          \<lparr>selected = Some (chosenBackend f p), probes = (if f then 0 else 1),
           delegated = map (Pair (chosenBackend f p)) ops\<rparr>)
   \<and> (f \<longrightarrow> chosenBackend f p = EncryptedFile)
   \<and> (\<not> f \<longrightarrow> (chosenBackend f p = Keychain \<longleftrightarrow> p 0 = ProbeTrue)
              \<and> (chosenBackend f p = EncryptedFile \<longleftrightarrow> p 0 = ProbeFalse \<or> p 0 = ProbeThrows))"
proof -
  have run: "hybridOps f p newHybrid (op # rest) =
      \<lparr>selected = Some (chosenBackend f p), probes = (if f then 0 else 1),
       delegated = map (Pair (chosenBackend f p)) (op # rest)\<rparr>" for op rest
  proof -
    have "hybridOps f p newHybrid (op # rest) = hybridOps f p (hybridOp f p newHybrid op) rest"
      by (simp add: hybridOps_def)
    also have "\<dots> = (hybridOp f p newHybrid op)\<lparr>delegated :=
        delegated (hybridOp f p newHybrid op) @ map (Pair (chosenBackend f p)) rest\<rparr>"
      by (rule hybridOps_selected) (simp add: hybridOp_first)
    finally show ?thesis by (simp add: hybridOp_first)
  qed
  have a: "probes (hybridOps f p newHybrid ops) \<le> 1"
  proof (cases ops)
    case Nil
    then show ?thesis by (simp add: hybridOps_def newHybrid_def)
  next
    case (Cons op rest)
    then show ?thesis by (simp add: run)
  qed
  have b: "ops \<noteq> [] \<longrightarrow>
        hybridOps f p newHybrid ops =
          \<lparr>selected = Some (chosenBackend f p), probes = (if f then 0 else 1),
           delegated = map (Pair (chosenBackend f p)) ops\<rparr>"
    by (cases ops) (simp_all only: run list.distinct simp_thms)
  have c: "f \<longrightarrow> chosenBackend f p = EncryptedFile" by (simp add: chosenBackend_def)
  have d: "\<not> f \<longrightarrow> (chosenBackend f p = Keychain \<longleftrightarrow> p 0 = ProbeTrue)
              \<and> (chosenBackend f p = EncryptedFile \<longleftrightarrow> p 0 = ProbeFalse \<or> p 0 = ProbeThrows)"
    by (cases "p 0") (simp_all add: chosenBackend_def)
  from a b c d show ?thesis by blast
qed

theorem hybrid_backend_chosen_once_witness:
  "[GetCredentials ''test-server'', GetCredentials ''another-server'', ListServers] \<noteq> []
   \<and> hybridOps False (\<lambda>n. if n = 0 then ProbeTrue else ProbeFalse) newHybrid
       [GetCredentials ''test-server'', GetCredentials ''another-server'', ListServers]
     = \<lparr>selected = Some Keychain, probes = 1,
        delegated = [(Keychain, GetCredentials ''test-server''),
                     (Keychain, GetCredentials ''another-server''), (Keychain, ListServers)]\<rparr>
   \<and> hybridOps True (\<lambda>n. ProbeTrue) newHybrid [GetCredentials ''test-server'']
     = \<lparr>selected = Some EncryptedFile, probes = 0,
        delegated = [(EncryptedFile, GetCredentials ''test-server'')]\<rparr>"
proof -
  let ?ops = "[GetCredentials ''test-server'', GetCredentials ''another-server'', ListServers]"
  let ?p = "\<lambda>n::nat. if n = 0 then ProbeTrue else ProbeFalse"
  have ne: "?ops \<noteq> []" by simp
  have ne2: "[GetCredentials ''test-server''] \<noteq> []" by simp
  have k: "chosenBackend False ?p = Keychain" by (simp add: chosenBackend_def)
  have fl: "chosenBackend True (\<lambda>n. ProbeTrue) = EncryptedFile" by (simp add: chosenBackend_def)
  from hybrid_backend_chosen_once[of False ?p ?ops, THEN conjunct2, THEN conjunct1, THEN mp, OF ne]
  have a: "hybridOps False ?p newHybrid ?ops
     = \<lparr>selected = Some Keychain, probes = 1,
        delegated = [(Keychain, GetCredentials ''test-server''),
                     (Keychain, GetCredentials ''another-server''), (Keychain, ListServers)]\<rparr>"
    unfolding k by simp
  from hybrid_backend_chosen_once[of True "\<lambda>n. ProbeTrue" "[GetCredentials ''test-server'']",
      THEN conjunct2, THEN conjunct1, THEN mp, OF ne2]
  have b: "hybridOps True (\<lambda>n. ProbeTrue) newHybrid [GetCredentials ''test-server'']
     = \<lparr>selected = Some EncryptedFile, probes = 0,
        delegated = [(EncryptedFile, GetCredentials ''test-server'')]\<rparr>"
    unfolding fl by simp
  from ne a b show ?thesis by blast
qed

section \<open>Properties of the secure browser launcher\<close>

lemma validateUrl_rejected:
  "validateUrl u = Inl err \<Longrightarrow> openBrowserSecurely pf x u = (Inl err, [])"
  by (simp add: openBrowserSecurely_def)

lemma list_ex_isControl:
  "list_ex isControl u \<longleftrightarrow> CHR 0x0A \<in> set u \<or> CHR 0x0D \<in> set u \<or> CHR 0x00 \<in> set u"
  by (auto simp: list_ex_iff isControl_def)

lemma openBrowserSecurely_accepted:
  assumes "validateUrl u = Inr ()" and "pf = Darwin \<or> pf = Win32 \<or> pf = Linux"
  shows "snd (openBrowserSecurely pf x u) \<noteq> []
     \<and> list_all (carriesUrl pf u) (snd (openBrowserSecurely pf x u))"
  using assms by (auto simp: openBrowserSecurely_def carriesUrl_def)

text \<open>
  Claim C7. A URL whose scheme is not \<open>http\<close> or \<open>https\<close> is rejected with the unsafe
  protocol error; a URL with scheme \<open>http\<close> or \<open>https\<close> that holds a newline, a
  carriage return or NUL is rejected with the invalid characters error; in both cases,
  and for every URL that holds one of these characters, no process is spawned. A URL with
  scheme \<open>http\<close> or \<open>https\<close> and none of these characters passes the validation, and on
  macOS, Windows and Linux every spawn carries it in one element of the argument vector:
  as the only argument of \<open>open\<close>, \<open>xdg-open\<close> and \<open>gnome-open\<close>, and quoted, with its
  single quotes doubled, in the command element of PowerShell.
\<close>

theorem unsafe_urls_rejected_before_spawn:
  "(urlScheme u = Some s \<and> s \<noteq> ''http'' \<and> s \<noteq> ''https'' \<longrightarrow>
      openBrowserSecurely pf x u = (Inl (UnsafeProtocol s), []))
   \<and> ((urlScheme u = Some ''http'' \<or> urlScheme u = Some ''https'')
       \<and> (CHR 0x0A \<in> set u \<or> CHR 0x0D \<in> set u \<or> CHR 0x00 \<in> set u) \<longrightarrow>
      openBrowserSecurely pf x u = (Inl InvalidCharacters, []))
   \<and> (CHR 0x0A \<in> set u \<or> CHR 0x0D \<in> set u \<or> CHR 0x00 \<in> set u \<longrightarrow>
      (\<exists>err. openBrowserSecurely pf x u = (Inl err, [])))
   \<and> ((urlScheme u = Some ''http'' \<or> urlScheme u = Some ''https'')
       \<and> CHR 0x0A \<notin> set u \<and> CHR 0x0D \<notin> set u \<and> CHR 0x00 \<notin> set u \<longrightarrow>
      validateUrl u = Inr ()
      \<and> (pf = Darwin \<or> pf = Win32 \<or> pf = Linux \<longrightarrow>
           snd (openBrowserSecurely pf x u) \<noteq> []
           \<and> list_all (carriesUrl pf u) (snd (openBrowserSecurely pf x u))))"
proof (intro conjI impI)
  assume "urlScheme u = Some s \<and> s \<noteq> ''http'' \<and> s \<noteq> ''https''"
  then have "validateUrl u = Inl (UnsafeProtocol s)" by (simp add: validateUrl_def)
  then show "openBrowserSecurely pf x u = (Inl (UnsafeProtocol s), [])"
    by (rule validateUrl_rejected)
next
  assume "(urlScheme u = Some ''http'' \<or> urlScheme u = Some ''https'')
       \<and> (CHR 0x0A \<in> set u \<or> CHR 0x0D \<in> set u \<or> CHR 0x00 \<in> set u)"
  then have "validateUrl u = Inl InvalidCharacters"
    using list_ex_isControl[of u] by (auto simp: validateUrl_def)
  then show "openBrowserSecurely pf x u = (Inl InvalidCharacters, [])"
    by (rule validateUrl_rejected)
next
  assume "CHR 0x0A \<in> set u \<or> CHR 0x0D \<in> set u \<or> CHR 0x00 \<in> set u"
  then have "list_ex isControl u" using list_ex_isControl[of u] by simp
  then have "\<exists>err. validateUrl u = Inl err"
    by (simp add: validateUrl_def split: option.split)
  then show "\<exists>err. openBrowserSecurely pf x u = (Inl err, [])"
    using validateUrl_rejected by blast
next
  assume a: "(urlScheme u = Some ''http'' \<or> urlScheme u = Some ''https'')
       \<and> CHR 0x0A \<notin> set u \<and> CHR 0x0D \<notin> set u \<and> CHR 0x00 \<notin> set u"
  then show v: "validateUrl u = Inr ()"
    using list_ex_isControl[of u] by (auto simp: validateUrl_def)
  assume "pf = Darwin \<or> pf = Win32 \<or> pf = Linux"
  from openBrowserSecurely_accepted[OF v this]
  show "snd (openBrowserSecurely pf x u) \<noteq> []"
    and "list_all (carriesUrl pf u) (snd (openBrowserSecurely pf x u))"
    by simp_all
qed

theorem unsafe_urls_rejected_before_spawn_witness:
  "urlScheme ''file:///etc/passwd'' = Some ''file''
   \<and> openBrowserSecurely Darwin (\<lambda>c a. True) ''file:///etc/passwd'' = (Inl (UnsafeProtocol ''file''), [])
   \<and> urlScheme ''javascript:alert(1)'' = Some ''javascript''
   \<and> openBrowserSecurely Darwin (\<lambda>c a. True) ''javascript:alert(1)'' = (Inl (UnsafeProtocol ''javascript''), [])
   \<and> urlScheme ''ftp://example.com'' = Some ''ftp''
   \<and> openBrowserSecurely Darwin (\<lambda>c a. True) ''ftp://example.com'' = (Inl (UnsafeProtocol ''ftp''), [])
   \<and> openBrowserSecurely Darwin (\<lambda>c a. True) (''http://example.com'' @ [CHR 0x0A] @ ''malicious-command'')
       = (Inl InvalidCharacters, [])
   \<and> list_all (carriesUrl Darwin ''https://example.com'')
       (snd (openBrowserSecurely Darwin (\<lambda>c a. True) ''https://example.com''))"
proof -
  have f: "urlScheme ''file:///etc/passwd'' = Some ''file''" by code_simp
  have j: "urlScheme ''javascript:alert(1)'' = Some ''javascript''" by code_simp
  have t: "urlScheme ''ftp://example.com'' = Some ''ftp''" by code_simp
  have h: "urlScheme (''http://example.com'' @ [CHR 0x0A] @ ''malicious-command'') = Some ''http''"
    by code_simp
  have s: "urlScheme ''https://example.com'' = Some ''https''" by code_simp
  have nc: "CHR 0x0A \<notin> set ''https://example.com'' \<and> CHR 0x0D \<notin> set ''https://example.com''
      \<and> CHR 0x00 \<notin> set ''https://example.com''" by simp
  have c: "CHR 0x0A \<in> set (''http://example.com'' @ [CHR 0x0A] @ ''malicious-command'')" by simp
  note T = unsafe_urls_rejected_before_spawn
  from T[of "''file:///etc/passwd''" "''file''" Darwin "\<lambda>c a. True", THEN conjunct1] f
  have a1: "openBrowserSecurely Darwin (\<lambda>c a. True) ''file:///etc/passwd'' = (Inl (UnsafeProtocol ''file''), [])"
    by simp
  from T[of "''javascript:alert(1)''" "''javascript''" Darwin "\<lambda>c a. True", THEN conjunct1] j
  have a2: "openBrowserSecurely Darwin (\<lambda>c a. True) ''javascript:alert(1)'' = (Inl (UnsafeProtocol ''javascript''), [])"
    by simp
  from T[of "''ftp://example.com''" "''ftp''" Darwin "\<lambda>c a. True", THEN conjunct1] t
  have a3: "openBrowserSecurely Darwin (\<lambda>c a. True) ''ftp://example.com'' = (Inl (UnsafeProtocol ''ftp''), [])"
    by simp
  from T[of "''http://example.com'' @ [CHR 0x0A] @ ''malicious-command''" "[]" Darwin "\<lambda>c a. True",
      THEN conjunct2, THEN conjunct1] h c
  have a4: "openBrowserSecurely Darwin (\<lambda>c a. True) (''http://example.com'' @ [CHR 0x0A] @ ''malicious-command'')
       = (Inl InvalidCharacters, [])"
    by blast
  from T[of "''https://example.com''" "[]" Darwin "\<lambda>c a. True",
      THEN conjunct2, THEN conjunct2, THEN conjunct2] s nc
  have a5: "list_all (carriesUrl Darwin ''https://example.com'')
       (snd (openBrowserSecurely Darwin (\<lambda>c a. True) ''https://example.com''))"
    by blast
  from f j t a1 a2 a3 a4 a5 show ?thesis by blast
qed

section \<open>Properties of the encryption primitive\<close>

lemma hexDigits_table:
  "list_all (\<lambda>n. hexValue (hexDigit n) = Some n \<and> hexDigit n \<noteq> CHR '':'') [0..<16]"
  by code_simp

lemma hexDigit_props:
  assumes "n < 16"
  shows "hexValue (hexDigit n) = Some n" and "hexDigit n \<noteq> CHR '':''"
proof -
  have "n \<in> set [0..<16]" using assms by simp
  then have "hexValue (hexDigit n) = Some n \<and> hexDigit n \<noteq> CHR '':''"
    using hexDigits_table unfolding list_all_iff by blast
  then show "hexValue (hexDigit n) = Some n" and "hexDigit n \<noteq> CHR '':''" by simp_all
qed

lemma unat_byte_less: "unat (b :: byte) < 256"
  using unsigned_less[of b, where 'a=nat] by simp

lemma toHex_Cons:
  "toHex (b # bs) = hexDigit (unat b div 16) # hexDigit (unat b mod 16) # toHex bs"
  by (simp add: toHex_def hexByte_def)

lemma fromHex_toHex: "fromHex (toHex bs) = Some bs"
proof (induction bs)
  case Nil
  then show ?case by (simp add: toHex_def)
next
  case (Cons b bs)
  have hi: "unat b div 16 < 16" using unat_byte_less[of b] by simp
  have lo: "unat b mod 16 < 16" by simp
  have "(of_nat (16 * (unat b div 16) + unat b mod 16) :: byte) = of_nat (unat b)"
    by (simp only: mult_div_mod_eq)
  then have wb: "(of_nat (16 * (unat b div 16) + unat b mod 16) :: byte) = b" by simp
  show ?case
    by (simp only: toHex_Cons fromHex.simps hexDigit_props(1)[OF hi] hexDigit_props(1)[OF lo]
        Cons.IH wb prod.case option.case)
qed

lemma toHex_no_colon: "CHR '':'' \<notin> set (toHex bs)"
proof (induction bs)
  case Nil
  then show ?case by (simp add: toHex_def)
next
  case (Cons b bs)
  have hi: "unat b div 16 < 16" using unat_byte_less[of b] by simp
  have lo: "unat b mod 16 < 16" by simp
  show ?case using Cons hexDigit_props(2)[OF hi] hexDigit_props(2)[OF lo]
    by (simp add: toHex_Cons)
qed

lemma js_split_none: "d \<notin> set xs \<Longrightarrow> js_split d xs = [xs]"
  by (induction xs) auto

lemma js_split_first: "d \<notin> set xs \<Longrightarrow> js_split d (xs @ d # ys) = xs # js_split d ys"
  by (induction xs) auto

lemma js_split_encrypt:
  "js_split (CHR '':'') (fst (encrypt ci random drawn key plaintext)) =
     [toHex (draw random drawn),
      toHex (authTag ci key (draw random drawn) (xorStream ci key (draw random drawn) (utf8 plaintext))),
      toHex (xorStream ci key (draw random drawn) (utf8 plaintext))]"
proof -
  let ?iv = "draw random drawn"
  let ?ct = "xorStream ci key ?iv (utf8 plaintext)"
  let ?tag = "authTag ci key ?iv ?ct"
  have "fst (encrypt ci random drawn key plaintext)
      = toHex ?iv @ CHR '':'' # (toHex ?tag @ CHR '':'' # toHex ?ct)"
    by (simp add: encrypt_def Let_def)
  then show ?thesis
    by (simp only: js_split_first[OF toHex_no_colon] js_split_none[OF toHex_no_colon])
qed

text \<open>What \<open>split\<close> gives is never empty, and joining it with the separator gives the
  string back.\<close>

lemma js_split_nonempty: "js_split d s \<noteq> []"
  by (induction s) (simp_all split: list.split)

lemma js_split_cases:
  "js_split d s = w # ws \<Longrightarrow>
     (ws = [] \<and> s = w) \<or> (\<exists>rest. s = w @ d # rest \<and> js_split d rest = ws)"
proof (induction s arbitrary: w ws)
  case Nil
  then show ?case by simp
next
  case (Cons c cs)
  show ?case
  proof (cases "c = d")
    case True
    then show ?thesis using Cons.prems by auto
  next
    case False
    obtain w' ws' where sp: "js_split d cs = w' # ws'"
      using js_split_nonempty[of d cs] by (cases "js_split d cs") auto
    have w: "w = c # w'" and ws: "ws = ws'" using Cons.prems False sp by simp_all
    from Cons.IH[OF sp] show ?thesis unfolding w ws by auto
  qed
qed

lemma js_split_three:
  assumes "js_split d s = [a, b, c]"
  shows "s = a @ d # b @ d # c"
proof -
  from js_split_cases[OF assms] obtain r1 where s: "s = a @ d # r1"
    and r1: "js_split d r1 = [b, c]" by auto
  from js_split_cases[OF r1] obtain r2 where b: "r1 = b @ d # r2"
    and r2: "js_split d r2 = [c]" by auto
  from js_split_cases[OF r2] js_split_nonempty[of d] have "r2 = c" by auto
  with s b show ?thesis by simp
qed

lemma fromHex_hex: "fromHex s = Some bs \<Longrightarrow> hexSegment s"
proof (induction s arbitrary: bs rule: fromHex.induct)
  case 1
  then show ?case by (simp add: hexSegment_def)
next
  case (2 c)
  then show ?case by simp
next
  case (3 a b r)
  then show ?case
    by (auto simp: hexSegment_def isHexDigit_def split: option.splits)
qed

lemma hexSegment_fromHex: "hexSegment s \<Longrightarrow> \<exists>bs. fromHex s = Some bs"
proof (induction s rule: fromHex.induct)
  case 1
  then show ?case by simp
next
  case (2 c)
  then show ?case by (simp add: hexSegment_def)
next
  case (3 a b r)
  then show ?case
    by (auto simp: hexSegment_def isHexDigit_def)
qed

lemma hexSegment_no_colon: "hexSegment s \<Longrightarrow> CHR '':'' \<notin> set s"
proof -
  have "\<not> isHexDigit (CHR '':'')" by (simp add: isHexDigit_def hexValue_def)
  then show "hexSegment s \<Longrightarrow> CHR '':'' \<notin> set s"
    by (auto simp: hexSegment_def list_all_iff)
qed

lemma decrypt_format:
  assumes "decrypt ci key blob \<noteq> Inl InvalidFormat"
  shows "threeHexSegments blob"
proof -
  from assms obtain a b c iv tag encrypted where sp: "js_split (CHR '':'') blob = [a, b, c]"
    and h: "fromHex a = Some iv" "fromHex b = Some tag" "fromHex c = Some encrypted"
    by (auto simp: decrypt_def split: list.splits option.splits)
  have "blob = a @ '':'' @ b @ '':'' @ c" using js_split_three[OF sp] by simp
  then show ?thesis unfolding threeHexSegments_def
    using fromHex_hex[OF h(1)] fromHex_hex[OF h(2)] fromHex_hex[OF h(3)] by blast
qed

lemma decrypt_parses:
  assumes "threeHexSegments blob"
  shows "decrypt ci key blob \<noteq> Inl InvalidFormat"
proof -
  from assms obtain a b c where e: "blob = a @ CHR '':'' # (b @ CHR '':'' # c)"
    and s: "hexSegment a" "hexSegment b" "hexSegment c"
    unfolding threeHexSegments_def by auto
  have sp: "js_split (CHR '':'') blob = [a, b, c]"
    unfolding e
    by (simp only: js_split_first[OF hexSegment_no_colon[OF s(1)]]
        js_split_first[OF hexSegment_no_colon[OF s(2)]]
        js_split_none[OF hexSegment_no_colon[OF s(3)]])
  from hexSegment_fromHex[OF s(1)] hexSegment_fromHex[OF s(2)] hexSegment_fromHex[OF s(3)]
  obtain iv tag encrypted where "fromHex a = Some iv" "fromHex b = Some tag"
    "fromHex c = Some encrypted" by blast
  then show ?thesis by (simp add: decrypt_def sp)
qed

text \<open>Two draws of a source at different positions differ.\<close>

lemma draw_fresh: "draw random n = draw random n' \<Longrightarrow> n = n'"
  using draw[of random] by (simp add: inj_def)

lemma encrypt_blob_iv:
  assumes "fst (encrypt ci random n key plaintext) = fst (encrypt ci random n' key plaintext)"
  shows "n = n'"
proof -
  from assms have "js_split (CHR '':'') (fst (encrypt ci random n key plaintext))
      = js_split (CHR '':'') (fst (encrypt ci random n' key plaintext))" by simp
  then have "toHex (draw random n) = toHex (draw random n')" unfolding js_split_encrypt by simp
  then have "fromHex (toHex (draw random n)) = fromHex (toHex (draw random n'))" by simp
  then have "draw random n = draw random n'" by (simp add: fromHex_toHex)
  then show ?thesis by (rule draw_fresh)
qed

lemma length_xorStream: "length (xorStream ci key iv bs) = length bs"
  by (simp add: xorStream_def)

lemma nth_xorStream:
  "i < length bs \<Longrightarrow> xorStream ci key iv bs ! i = bs ! i XOR keyStream ci key iv i"
  by (simp add: xorStream_def)

lemma xorStream_involution: "xorStream ci key iv (xorStream ci key iv bs) = bs"
proof (rule nth_equalityI)
  show "length (xorStream ci key iv (xorStream ci key iv bs)) = length bs"
    by (simp add: length_xorStream)
next
  fix i assume "i < length (xorStream ci key iv (xorStream ci key iv bs))"
  then have i: "i < length bs" by (simp add: length_xorStream)
  then show "xorStream ci key iv (xorStream ci key iv bs) ! i = bs ! i"
    by (simp add: nth_xorStream length_xorStream xor.assoc)
qed

lemma fromUtf8_utf8: "fromUtf8 (utf8 s) = s"
proof -
  have "char_of (unat (of_nat (of_char c) :: byte)) = c" for c
    by (simp add: unat_of_nat)
  then show ?thesis by (simp add: fromUtf8_def utf8_def map_idI)
qed

text \<open>
  Claim C9. For every plaintext and key (the 32-byte keys among them), \<open>decrypt\<close> gives
  back the plaintext from the blob that \<open>encrypt\<close> produced. Every call of \<open>encrypt\<close>
  draws one more initialization vector, so that a call on the same plaintext and key
  straight after another, or after any number of further draws, yields a different blob.
  And \<open>decrypt\<close> fails with the format error on every input that is not three hex
  segments separated by colons, and on no other input.
\<close>

theorem encrypt_decrypt_roundtrip:
  "decrypt ci key (fst (encrypt ci random drawn key plaintext)) = Inr plaintext
   \<and> snd (encrypt ci random drawn key plaintext) = Suc drawn
   \<and> fst (encrypt ci random (snd (encrypt ci random drawn key plaintext)) key plaintext)
       \<noteq> fst (encrypt ci random drawn key plaintext)
   \<and> fst (encrypt ci random (drawn + Suc k) key plaintext)
       \<noteq> fst (encrypt ci random drawn key plaintext)
   \<and> (\<not> threeHexSegments blob \<longrightarrow> decrypt ci key blob = Inl InvalidFormat)
   \<and> (threeHexSegments blob \<longrightarrow> decrypt ci key blob \<noteq> Inl InvalidFormat)"
proof -
  have a: "decrypt ci key (fst (encrypt ci random drawn key plaintext)) = Inr plaintext"
    unfolding decrypt_def js_split_encrypt
    by (simp add: fromHex_toHex xorStream_involution fromUtf8_utf8)
  have b: "snd (encrypt ci random drawn key plaintext) = Suc drawn"
    by (simp add: encrypt_def Let_def)
  have d: "fst (encrypt ci random (drawn + Suc k) key plaintext)
       \<noteq> fst (encrypt ci random drawn key plaintext)" for k
  proof
    assume "fst (encrypt ci random (drawn + Suc k) key plaintext)
       = fst (encrypt ci random drawn key plaintext)"
    then have "drawn + Suc k = drawn" by (rule encrypt_blob_iv)
    then show False by simp
  qed
  have c: "fst (encrypt ci random (snd (encrypt ci random drawn key plaintext)) key plaintext)
       \<noteq> fst (encrypt ci random drawn key plaintext)"
    unfolding b using d[of 0] by simp
  have f: "\<not> threeHexSegments blob \<longrightarrow> decrypt ci key blob = Inl InvalidFormat"
    using decrypt_format[of ci key blob] by blast
  have g: "threeHexSegments blob \<longrightarrow> decrypt ci key blob \<noteq> Inl InvalidFormat"
    using decrypt_parses[of blob ci key] by blast
  from a b c d[of k] f g show ?thesis by blast
qed

theorem encrypt_decrypt_roundtrip_witness:
  "length demoKey = 32
   \<and> decrypt demoCipher demoKey (fst (encrypt demoCipher demoSource 0 demoKey ''test-data-123''))
       = Inr ''test-data-123''
   \<and> fst (encrypt demoCipher demoSource (snd (encrypt demoCipher demoSource 0 demoKey ''test-data-123''))
          demoKey ''test-data-123'')
       \<noteq> fst (encrypt demoCipher demoSource 0 demoKey ''test-data-123'')
   \<and> \<not> threeHexSegments ''invalid-data''
   \<and> decrypt demoCipher demoKey ''invalid-data'' = Inl InvalidFormat
   \<and> threeHexSegments ''0b:0102:2e''
   \<and> decrypt demoCipher demoKey ''0b:0102:2e'' \<noteq> Inl InvalidFormat"
proof -
  have k: "length demoKey = 32" by (simp add: demoKey_def)
  have bad: "\<not> threeHexSegments ''invalid-data''"
  proof
    assume "threeHexSegments ''invalid-data''"
    then obtain a b c where e: "''invalid-data'' = a @ '':'' @ b @ '':'' @ c"
      unfolding threeHexSegments_def by blast
    have "CHR '':'' \<in> set (a @ '':'' @ b @ '':'' @ c)" by simp
    then have "CHR '':'' \<in> set ''invalid-data''" unfolding e[symmetric] .
    then show False by simp
  qed
  have good: "threeHexSegments ''0b:0102:2e''"
  proof -
    have "''0b:0102:2e'' = ''0b'' @ '':'' @ ''0102'' @ '':'' @ ''2e''" by simp
    moreover have "hexSegment ''0b''" "hexSegment ''0102''" "hexSegment ''2e''"
      by (simp_all add: hexSegment_def isHexDigit_def hexValue_def)
    ultimately show ?thesis unfolding threeHexSegments_def by blast
  qed
  note T = encrypt_decrypt_roundtrip[of demoCipher demoKey demoSource 0 "''test-data-123''"
      0 "''invalid-data''"]
  note U = encrypt_decrypt_roundtrip[of demoCipher demoKey demoSource 0 "''test-data-123''"
      0 "''0b:0102:2e''"]
  from T have a: "decrypt demoCipher demoKey
      (fst (encrypt demoCipher demoSource 0 demoKey ''test-data-123'')) = Inr ''test-data-123''"
    by (rule conjunct1)
  from T[THEN conjunct2, THEN conjunct2, THEN conjunct1]
  have b: "fst (encrypt demoCipher demoSource (snd (encrypt demoCipher demoSource 0 demoKey ''test-data-123''))
          demoKey ''test-data-123'')
       \<noteq> fst (encrypt demoCipher demoSource 0 demoKey ''test-data-123'')" .
  from T[THEN conjunct2, THEN conjunct2, THEN conjunct2, THEN conjunct2, THEN conjunct1, THEN mp, OF bad]
  have c: "decrypt demoCipher demoKey ''invalid-data'' = Inl InvalidFormat" .
  from U[THEN conjunct2, THEN conjunct2, THEN conjunct2, THEN conjunct2, THEN conjunct2, THEN mp, OF good]
  have d: "decrypt demoCipher demoKey ''0b:0102:2e'' \<noteq> Inl InvalidFormat" .
  from k a b bad c good d show ?thesis by blast
qed


end
